theory Spec2Isabelle
  imports Complex_Main "HOL-Library.Multiset" "HOL-Library.Char_ord" "HOL-Library.List_Lexorder"
begin

section \<open>TIF2PDF.py: the image list and the two exporters\<close>

text \<open>
  A shallow embedding of \<^verbatim>\<open>src/TIF2PDF.py\<close> (class \<^verbatim>\<open>ImageConverterGUI\<close>). The
  object's fields and the widgets the methods read and write are one record, \<open>app\<close>;
  every method is a function from that record to the updated record. What the methods
  ask the operating system and the imaging libraries is a second record, \<open>world\<close>, of
  functions: it is read, never changed, during one call. A Python exception that leaves
  a method is the first component of the result (\<open>Some e\<close>), next to the state the
  object is left in.

  A Python \<^verbatim>\<open>str\<close> is modelled by its UTF-8 encoding, a list of bytes. Python
  compares \<^verbatim>\<open>str\<close> lexicographically by code point, which is the byte order of UTF-8.
\<close>

subsection \<open>Data\<close>

type_synonym path = string

datatype py_error = IndexError | OSError | ZeroDivisionError | SaveError

text \<open>
  The values of the four option variables. The source compares Chinese string literals;
  each constructor stands for one of them:
  \<^item> \<open>format_var\<close>: \<open>AllImages\<close>, \<open>PngJpgOnly\<close>, \<open>TifOnly\<close>, \<open>BmpOnly\<close> (the four
    values of the read-only combo box, lines 97-99);
  \<^item> \<open>selected_format\<close>: \<open>PDF\<close>, \<open>PPT\<close> (the two radio buttons);
  \<^item> \<open>pdf_quality_var\<close>: the three combo-box values \<open>QLosslessRecommended\<close>, \<open>QMedium\<close>,
    \<open>QHighCompression\<close> (line 185) and \<open>QInitial\<close>, the different string the variable is
    created with (line 183);
  \<^item> \<open>ppt_layout_var\<close>: \<open>BlankPage\<close>, \<open>CenteredImage\<close>, \<open>FullScreenFill\<close> (line 192).
\<close>

datatype ext_filter = AllImages | PngJpgOnly | TifOnly | BmpOnly
datatype out_format = PDF | PPT
datatype quality_mode = QLosslessRecommended | QMedium | QHighCompression | QInitial
datatype ppt_layout = BlankPage | CenteredImage | FullScreenFill

text \<open>
  A PIL image: \<^verbatim>\<open>img.size\<close>, \<^verbatim>\<open>img.mode\<close> and the pixels, \<open>img_pixels img x y\<close> being the
  band values of the pixel at \<open>(x, y)\<close> in the order of the mode's bands (for \<^verbatim>\<open>RGBA\<close>:
  red, green, blue, alpha).
\<close>

record pil_image =
  img_width :: nat
  img_height :: nat
  img_mode :: string
  img_pixels :: "nat \<Rightarrow> nat \<Rightarrow> nat list"

text \<open>
  What \<^verbatim>\<open>page.insert_image\<close> is given: the file itself (\<^verbatim>\<open>filename=filepath\<close>), or the
  bytes \<^verbatim>\<open>img.save(format='JPEG', quality=q)\<close> produced from an image.
\<close>

datatype page_content = OriginalFile path | JpegStream pil_image nat

record pdf_page =
  page_width :: nat
  page_height :: nat
  page_image :: "page_content option"

text \<open>The arguments of \<^verbatim>\<open>slide.shapes.add_picture\<close>; lengths are python-pptx lengths (EMU).\<close>

record picture =
  pic_file :: path
  pic_left :: int
  pic_top :: int
  pic_width :: int
  pic_height :: int

record slide =
  slide_picture :: "picture option"

datatype document = PdfDoc "pdf_page list" | PptDoc "slide list"

datatype log_msg =
    LogScanError | LogScanDone nat | LogRemoved nat
  | LogPdfStart quality_mode | LogProcessing nat nat string
  | LogWarnProcess | LogSavingPdf | LogPdfDone | LogOriginalSize nat | LogPdfSize nat
  | LogRatio rat
  | LogPptStart | LogWarnSize | LogWarnInsert | LogSavingPpt | LogPptDone
  | LogSlideCount nat | LogPptSize nat
  | LogConvertDone path | LogConvertFailed py_error

datatype status = StatusReady | StatusProcessing string | StatusSuccess | StatusFailed

datatype dialog = WarnNoImages | WarnNoOutput | InfoDone path | ErrorFailed py_error

text \<open>
  A call of \<^verbatim>\<open>progress_var.set\<close>: \<open>SetZero\<close> is \<^verbatim>\<open>set(0)\<close> (line 436), \<open>SetItem i n\<close> is
  the call scheduled after entry \<open>i\<close> of \<open>n\<close> with the value \<^verbatim>\<open>((i + 1) / n) * 100\<close>
  (lines 526-527 and 607-608).
\<close>

datatype progress_call = SetZero | SetItem nat nat

fun event_index :: "progress_call \<Rightarrow> nat" where
  "event_index SetZero = 0"
| "event_index (SetItem i n) = i"

text \<open>
  The environment. \<open>windows\<close> says whether \<^verbatim>\<open>os.path\<close> is \<^verbatim>\<open>ntpath\<close>; \<open>listdir\<close>
  gives a directory's entry names in the order the system enumerates them; \<open>glob_dirs\<close>
  is what \<^verbatim>\<open>glob\<close> expands a directory name with wildcard characters to; \<open>path_join\<close>,
  \<open>basename\<close>, \<open>dirname\<close>, \<open>splitext_root\<close> are the \<^verbatim>\<open>os.path\<close> functions of the
  platform; \<open>getsize\<close> is \<open>None\<close> where \<^verbatim>\<open>os.path.getsize\<close> raises; \<open>image_open\<close> is
  \<open>None\<close> where \<^verbatim>\<open>Image.open\<close> (or reading \<^verbatim>\<open>img.size\<close>) raises; the \<open>_ok\<close> fields say
  whether the library call of that name returns rather than raises; \<open>saved_size\<close> is the
  size of the file a successful save writes; \<open>cmyk2rgb\<close> is the colour conversion PIL
  applies to each pixel of a \<^verbatim>\<open>CMYK\<close> image; \<open>float_fit ow oh\<close> is the
  \<open>(left, top, img_width, img_height)\<close> that lines 574-582 compute, in double-precision
  floating point, for an image of \<open>ow\<close> by \<open>oh\<close> pixels, neither of them zero.
\<close>

record world =
  windows :: bool
  isdir :: "path \<Rightarrow> bool"
  listdir :: "path \<Rightarrow> string list"
  glob_dirs :: "path \<Rightarrow> path list"
  path_join :: "path \<Rightarrow> string \<Rightarrow> path"
  basename :: "path \<Rightarrow> string"
  dirname :: "path \<Rightarrow> path"
  splitext_root :: "string \<Rightarrow> string"
  getsize :: "path \<Rightarrow> nat option"
  image_open :: "path \<Rightarrow> pil_image option"
  jpeg_save_ok :: "pil_image \<Rightarrow> nat \<Rightarrow> bool"
  insert_image_ok :: "page_content \<Rightarrow> bool"
  add_picture_ok :: "picture \<Rightarrow> bool"
  save_ok :: "path \<Rightarrow> document \<Rightarrow> bool"
  saved_size :: "document \<Rightarrow> nat"
  cmyk2rgb :: "nat list \<Rightarrow> nat list"
  float_fit :: "nat \<Rightarrow> nat \<Rightarrow> int \<times> int \<times> int \<times> int"

text \<open>
  The object. \<open>listbox\<close> has one flag per row of the list widget, \<open>True\<close> for a selected
  row; \<open>files_written\<close> collects what the exporters saved.
\<close>

record app =
  image_files :: "path list"
  listbox :: "bool list"
  count_label :: nat
  path_entry :: string
  output_entry :: string
  format_var :: ext_filter
  selected_format :: out_format
  pdf_quality_var :: quality_mode
  ppt_layout_var :: ppt_layout
  convert_btn :: bool
  progress_calls :: "progress_call list"
  status_label :: status
  log_text :: "log_msg list"
  dialogs :: "dialog list"
  files_written :: "(path \<times> document) list"

subsection \<open>The list widget\<close>

text \<open>\<^verbatim>\<open>self.log(message)\<close> (lines 619-622) appends a line to the log.\<close>

definition add_log :: "app \<Rightarrow> log_msg \<Rightarrow> app" where
  "add_log s m = s\<lparr>log_text := log_text s @ [m]\<rparr>"

text \<open>\<^verbatim>\<open>listbox.curselection()\<close>: the selected row indices, ascending.\<close>

definition curselection :: "app \<Rightarrow> nat list" where
  "curselection s = filter (\<lambda>i. listbox s ! i) [0..<length (listbox s)]"

text \<open>
  \<^verbatim>\<open>listbox.selection_set(i)\<close> selects row \<open>i\<close>; Tk ignores an index past the last row,
  as \<open>list_update\<close> does.
\<close>

definition selection_set :: "app \<Rightarrow> nat \<Rightarrow> app" where
  "selection_set s i = s\<lparr>listbox := (listbox s)[i := True]\<rparr>"

text \<open>
  \<^verbatim>\<open>update_listbox\<close> (lines 302-321) empties the widget and inserts one row per entry.
  \<^verbatim>\<open>os.path.getsize\<close> stands outside the \<^verbatim>\<open>try\<close>: where it raises, the rows inserted
  so far stay and the counter label is not reached.
\<close>

fun insert_rows :: "world \<Rightarrow> path list \<Rightarrow> bool list \<Rightarrow> py_error option \<times> bool list" where
  "insert_rows w [] rows = (None, rows)"
| "insert_rows w (f # fs) rows =
     (case getsize w f of
        None \<Rightarrow> (Some OSError, rows)
      | Some sz \<Rightarrow> insert_rows w fs (rows @ [False]))"

definition update_listbox :: "world \<Rightarrow> app \<Rightarrow> py_error option \<times> app" where
  "update_listbox w s =
     (case insert_rows w (image_files s) [] of
        (Some e, rows) \<Rightarrow> (Some e, s\<lparr>listbox := rows\<rparr>)
      | (None, rows) \<Rightarrow> (None, s\<lparr>listbox := rows, count_label := length (image_files s)\<rparr>))"

subsection \<open>Selection and reordering (lines 347-381)\<close>

text \<open>
  \<^verbatim>\<open>reverse_selection\<close>: for every row index not in the selection read at the start,
  \<^verbatim>\<open>selection_set\<close>. Nothing else is called.
\<close>

definition reverse_selection :: "app \<Rightarrow> app" where
  "reverse_selection s =
     (let all_items = [0..<length (listbox s)];
          selected = set (curselection s)
      in foldl (\<lambda>t i. if i \<notin> selected then selection_set t i else t) s all_items)"

text \<open>The tuple assignment \<^verbatim>\<open>xs[i], xs[j] = xs[j], xs[i]\<close>, both indices in range.\<close>

definition swap_items :: "'a list \<Rightarrow> nat \<Rightarrow> nat \<Rightarrow> 'a list" where
  "swap_items xs i j = xs[i := xs ! j, j := xs ! i]"

text \<open>
  The loop of \<^verbatim>\<open>move_up\<close> (lines 361-363). Reading \<^verbatim>\<open>image_files[i]\<close> with \<open>i\<close> past
  the end raises IndexError; \<open>i - 1\<close> is not negative under the guard \<open>i > 0\<close>.
\<close>

fun move_up_loop :: "path list \<Rightarrow> nat list \<Rightarrow> py_error option \<times> path list" where
  "move_up_loop fs [] = (None, fs)"
| "move_up_loop fs (i # rest) =
     (if i > 0 then
        (if i < length fs then move_up_loop (swap_items fs i (i - 1)) rest
         else (Some IndexError, fs))
      else move_up_loop fs rest)"

definition move_up :: "world \<Rightarrow> app \<Rightarrow> py_error option \<times> app" where
  "move_up w s =
     (let selected = curselection s in
      case selected of
        [] \<Rightarrow> (None, s)
      | i0 # _ \<Rightarrow>
          if i0 = 0 then (None, s)
          else
            (case move_up_loop (image_files s) selected of
               (Some e, fs) \<Rightarrow> (Some e, s\<lparr>image_files := fs\<rparr>)
             | (None, fs) \<Rightarrow>
                 (case update_listbox w (s\<lparr>image_files := fs\<rparr>) of
                    (Some e, t) \<Rightarrow> (Some e, t)
                  | (None, t) \<Rightarrow>
                      (None, foldl (\<lambda>u i. selection_set u (if i > 0 then i - 1 else i))
                               t selected))))"

text \<open>
  The loop of \<^verbatim>\<open>move_down\<close> (lines 375-377), over the selection reversed. The guard
  \<^verbatim>\<open>i < len(self.image_files) - 1\<close> is \<open>i + 1 < length fs\<close>, so both reads are in range.
\<close>

fun move_down_loop :: "path list \<Rightarrow> nat list \<Rightarrow> path list" where
  "move_down_loop fs [] = fs"
| "move_down_loop fs (i # rest) =
     (if Suc i < length fs then move_down_loop (swap_items fs i (Suc i)) rest
      else move_down_loop fs rest)"

definition move_down :: "world \<Rightarrow> app \<Rightarrow> py_error option \<times> app" where
  "move_down w s =
     (let selected = curselection s in
      if selected = [] \<or> Suc (last selected) = length (image_files s) then (None, s)
      else
        (let fs = move_down_loop (image_files s) (rev selected) in
         case update_listbox w (s\<lparr>image_files := fs\<rparr>) of
           (Some e, t) \<Rightarrow> (Some e, t)
         | (None, t) \<Rightarrow>
             (None, foldl (\<lambda>u i. selection_set u (if Suc i < length fs then Suc i else i))
                      t selected)))"

text \<open>
  \<^verbatim>\<open>remove_selected\<close> (lines 383-395): deletes from the highest selected index down.
\<close>

fun remove_loop :: "path list \<Rightarrow> nat list \<Rightarrow> path list" where
  "remove_loop fs [] = fs"
| "remove_loop fs (i # rest) =
     (if i < length fs then remove_loop (take i fs @ drop (Suc i) fs) rest
      else remove_loop fs rest)"

definition remove_selected :: "world \<Rightarrow> app \<Rightarrow> py_error option \<times> app" where
  "remove_selected w s =
     (let selected = curselection s in
      if selected = [] then (None, s)
      else
        (case update_listbox w (s\<lparr>image_files := remove_loop (image_files s) (rev selected)\<rparr>) of
           (Some e, t) \<Rightarrow> (Some e, t)
         | (None, t) \<Rightarrow> (None, add_log t (LogRemoved (length selected)))))"

subsection \<open>Scanning a folder (lines 260-300)\<close>

definition SUPPORTED_FORMATS :: "string list" where
  "SUPPORTED_FORMATS =
     [''.jpg'', ''.jpeg'', ''.png'', ''.bmp'', ''.gif'',
      ''.tif'', ''.tiff'', ''.webp'', ''.ico'', ''.ppm'']"

text \<open>
  \<^verbatim>\<open>str.strip()\<close>: leading and trailing whitespace characters removed. \<open>whitespace\<close>
  lists the UTF-8 encodings of the characters Python counts as whitespace: U+0009 to
  U+000D, U+001C to U+0020, U+0085, U+00A0, U+1680, U+2000 to U+200A, U+2028, U+2029,
  U+202F, U+205F and U+3000. In well-formed UTF-8 a string starts (ends) with a whitespace
  character exactly when one of these encodings is a prefix (suffix) of it.
\<close>

definition whitespace :: "string list" where
  "whitespace =
     [[CHR 0x09], [CHR 0x0A], [CHR 0x0B], [CHR 0x0C], [CHR 0x0D],
      [CHR 0x1C], [CHR 0x1D], [CHR 0x1E], [CHR 0x1F], [CHR 0x20],
      [CHR 0xC2, CHR 0x85], [CHR 0xC2, CHR 0xA0], [CHR 0xE1, CHR 0x9A, CHR 0x80],
      [CHR 0xE2, CHR 0x80, CHR 0x80], [CHR 0xE2, CHR 0x80, CHR 0x81],
      [CHR 0xE2, CHR 0x80, CHR 0x82], [CHR 0xE2, CHR 0x80, CHR 0x83],
      [CHR 0xE2, CHR 0x80, CHR 0x84], [CHR 0xE2, CHR 0x80, CHR 0x85],
      [CHR 0xE2, CHR 0x80, CHR 0x86], [CHR 0xE2, CHR 0x80, CHR 0x87],
      [CHR 0xE2, CHR 0x80, CHR 0x88], [CHR 0xE2, CHR 0x80, CHR 0x89],
      [CHR 0xE2, CHR 0x80, CHR 0x8A], [CHR 0xE2, CHR 0x80, CHR 0xA8],
      [CHR 0xE2, CHR 0x80, CHR 0xA9], [CHR 0xE2, CHR 0x80, CHR 0xAF],
      [CHR 0xE2, CHR 0x81, CHR 0x9F], [CHR 0xE3, CHR 0x80, CHR 0x80]]"

text \<open>The length of the first of \<open>pats\<close> that \<open>xs\<close> starts with, \<open>0\<close> when there is none.\<close>

fun match_len :: "string list \<Rightarrow> string \<Rightarrow> nat" where
  "match_len [] xs = 0"
| "match_len (p # ps) xs = (if take (length p) xs = p then length p else match_len ps xs)"

text \<open>
  \<open>skip_all pats k xs\<close> drops \<open>k\<close> bytes and then every leading occurrence of one of
  \<open>pats\<close>.
\<close>

fun skip_all :: "string list \<Rightarrow> nat \<Rightarrow> string \<Rightarrow> string" where
  "skip_all pats k [] = []"
| "skip_all pats (Suc k) (c # cs) = skip_all pats k cs"
| "skip_all pats 0 (c # cs) =
     (case match_len pats (c # cs) of
        0 \<Rightarrow> c # cs
      | Suc k \<Rightarrow> skip_all pats k cs)"

definition lstrip :: "string \<Rightarrow> string" where
  "lstrip xs = skip_all whitespace 0 xs"

definition rstrip :: "string \<Rightarrow> string" where
  "rstrip xs = rev (skip_all (map rev whitespace) 0 (rev xs))"

definition strip :: "string \<Rightarrow> string" where
  "strip xs = rstrip (lstrip xs)"

text \<open>The three \<^verbatim>\<open>continue\<close> branches of the extension loop (lines 272-277).\<close>

definition filter_skips :: "ext_filter \<Rightarrow> string \<Rightarrow> bool" where
  "filter_skips ff ext =
     (if ff = PngJpgOnly \<and> ext \<notin> set [''.jpg'', ''.jpeg'', ''.png''] then True
      else if ff = TifOnly \<and> ext \<notin> set [''.tif'', ''.tiff''] then True
      else if ff = BmpOnly \<and> ext \<notin> set [''.bmp''] then True
      else False)"

text \<open>
  \<^verbatim>\<open>glob.glob(os.path.join(folder, '*' + ext))\<close>, as the standard library computes it
  for a pattern whose last component is \<^verbatim>\<open>*\<close> followed by literal characters:
  \<^item> the pattern is split with \<^verbatim>\<open>os.path.split\<close>; its directory part (\<open>dirname\<close> of the
    pattern, the folder without trailing separators) is searched, unless it holds one of
    the characters \<^verbatim>\<open>* ? [\<close> (\<open>has_magic\<close>), in which case it is itself expanded as a
    pattern; with an empty directory part the current directory is searched and the
    names are returned bare;
  \<^item> entries whose name starts with a dot are left out, since the pattern does not;
  \<^item> a name matches when, after \<^verbatim>\<open>os.path.normcase\<close>, it ends with the extension;
    \<^verbatim>\<open>normcase\<close> lower-cases on Windows and is the identity elsewhere;
  \<^item> each match is returned joined to the directory part.
\<close>

definition has_magic :: "string \<Rightarrow> bool" where
  "has_magic p = list_ex (\<lambda>c. c = CHR ''*'' \<or> c = CHR ''?'' \<or> c = CHR ''['') p"

definition ishidden :: "string \<Rightarrow> bool" where
  "ishidden n = (case n of [] \<Rightarrow> False | c # _ \<Rightarrow> c = CHR ''.'')"

definition ascii_lower :: "char \<Rightarrow> char" where
  "ascii_lower c =
     (case map_of (zip ''ABCDEFGHIJKLMNOPQRSTUVWXYZ'' ''abcdefghijklmnopqrstuvwxyz'') c of
        Some l \<Rightarrow> l
      | None \<Rightarrow> c)"

definition normcase :: "world \<Rightarrow> string \<Rightarrow> string" where
  "normcase w n = (if windows w then map ascii_lower n else n)"

definition endswith :: "string \<Rightarrow> string \<Rightarrow> bool" where
  "endswith n suf = (length suf \<le> length n \<and> drop (length n - length suf) n = suf)"

definition glob1 :: "world \<Rightarrow> path \<Rightarrow> string \<Rightarrow> string list" where
  "glob1 w d ext =
     filter (\<lambda>n. \<not> ishidden n \<and> endswith (normcase w n) (normcase w ext)) (listdir w d)"

definition glob_star :: "world \<Rightarrow> path \<Rightarrow> string \<Rightarrow> path list" where
  "glob_star w folder ext =
     (let pathname = path_join w folder (CHR ''*'' # ext);
          d = dirname w pathname
      in if d = [] then glob1 w [] ext
         else
           (let dirs = (if d \<noteq> pathname \<and> has_magic d then glob_dirs w d else [d])
            in concat (map (\<lambda>dir. map (path_join w dir) (glob1 w dir ext)) dirs)))"

text \<open>The suffix \<^verbatim>\<open>_\<close> followed by the two characters U+5408 U+5E76, in UTF-8.\<close>

definition merged_suffix :: string where
  "merged_suffix = [CHR ''_'', CHR 0xE5, CHR 0x90, CHR 0x88, CHR 0xE5, CHR 0xB9, CHR 0xB6]"

text \<open>
  \<^verbatim>\<open>scan_folder\<close>. \<open>exts\<close> is the order in which the \<^verbatim>\<open>for\<close> loop visits the Python
  set \<^verbatim>\<open>SUPPORTED_FORMATS\<close>; the language does not fix it. \<^verbatim>\<open>sorted(list(set(xs)))\<close> is
  \<open>sort (remdups xs)\<close>.
\<close>

definition scan_folder :: "world \<Rightarrow> string list \<Rightarrow> app \<Rightarrow> py_error option \<times> app" where
  "scan_folder w exts s =
     (let folder = strip (path_entry s) in
      if folder = [] \<or> \<not> isdir w folder then (None, add_log s LogScanError)
      else
        (let format_filter = format_var s;
             found = concat (map (\<lambda>ext. if filter_skips format_filter ext then []
                                         else glob_star w folder ext) exts);
             s1 = s\<lparr>image_files := sort (remdups found)\<rparr>
         in case update_listbox w s1 of
              (Some e, s2) \<Rightarrow> (Some e, s2)
            | (None, s2) \<Rightarrow>
                (let s3 = add_log s2 (LogScanDone (length (image_files s2))) in
                 case image_files s3 of
                   [] \<Rightarrow> (None, s3)
                 | first_img # _ \<Rightarrow>
                     (let folder_name = splitext_root w (basename w first_img);
                          output_dir = dirname w first_img;
                          format_ext = (if selected_format s3 = PDF then ''.pdf'' else ''.pptx'')
                      in (None, s3\<lparr>output_entry :=
                                  path_join w output_dir (folder_name @ merged_suffix @ format_ext)\<rparr>)))))"

subsection \<open>Starting a conversion (lines 422-464)\<close>

text \<open>
  \<^verbatim>\<open>start_conversion\<close> returns the state and, when it starts the worker thread, the
  argument the thread's target \<^verbatim>\<open>convert_images\<close> is given; \<open>None\<close> when no thread is
  started.
\<close>

definition start_conversion :: "app \<Rightarrow> app \<times> path option" where
  "start_conversion s =
     (if image_files s = [] then (s\<lparr>dialogs := dialogs s @ [WarnNoImages]\<rparr>, None)
      else
        (let output_file = strip (output_entry s) in
         if output_file = [] then (s\<lparr>dialogs := dialogs s @ [WarnNoOutput]\<rparr>, None)
         else (s\<lparr>convert_btn := False, progress_calls := progress_calls s @ [SetZero]\<rparr>,
               Some output_file)))"

text \<open>
  A \<^verbatim>\<open>for\<close> loop whose body may raise: the first exception ends the loop and leaves
  with the state reached.
\<close>

fun run_items ::
  "('x \<Rightarrow> 'st \<Rightarrow> py_error option \<times> 'st) \<Rightarrow> 'x list \<Rightarrow> 'st \<Rightarrow> py_error option \<times> 'st" where
  "run_items body [] st = (None, st)"
| "run_items body (x # xs) st =
     (case body x st of
        (Some e, st') \<Rightarrow> (Some e, st')
      | (None, st') \<Rightarrow> run_items body xs st')"

subsection \<open>The PDF exporter (lines 466-540)\<close>

datatype compression = Lossless | Compress nat

definition pdf_compression :: "quality_mode \<Rightarrow> compression" where
  "pdf_compression qm =
     (if qm = QLosslessRecommended then Lossless
      else if qm = QMedium then Compress 60
      else Compress 30)"

text \<open>
  \<^verbatim>\<open>img.convert('RGB')\<close> of an \<^verbatim>\<open>RGBA\<close> image keeps the red, green and blue value of
  every pixel and drops the alpha band; of a \<^verbatim>\<open>CMYK\<close> image it converts every pixel.
\<close>

definition rgba_to_rgb :: "pil_image \<Rightarrow> pil_image" where
  "rgba_to_rgb img =
     img\<lparr>img_mode := ''RGB'', img_pixels := (\<lambda>x y. take 3 (img_pixels img x y))\<rparr>"

definition cmyk_to_rgb :: "world \<Rightarrow> pil_image \<Rightarrow> pil_image" where
  "cmyk_to_rgb w img =
     img\<lparr>img_mode := ''RGB'', img_pixels := (\<lambda>x y. cmyk2rgb w (img_pixels img x y))\<rparr>"

text \<open>Lines 507-510: the two mode tests before the JPEG encoder is called.\<close>

definition normalize_mode :: "world \<Rightarrow> pil_image \<Rightarrow> pil_image" where
  "normalize_mode w img =
     (if img_mode img = ''RGBA'' then rgba_to_rgb img
      else if img_mode img = ''CMYK'' then cmyk_to_rgb w img
      else img)"

text \<open>
  The modes PIL's JPEG encoder writes; \<^verbatim>\<open>img.save(format='JPEG')\<close> raises for every
  other mode. \<open>alpha_modes\<close> are the PIL modes with an alpha band.
\<close>

definition jpeg_modes :: "string list" where
  "jpeg_modes = [''1'', ''L'', ''RGB'', ''RGBX'', ''CMYK'', ''YCbCr'']"


definition new_page :: "nat \<Rightarrow> nat \<Rightarrow> pdf_page" where
  "new_page pw ph = \<lparr>page_width = pw, page_height = ph, page_image = None\<rparr>"

text \<open>
  The \<^verbatim>\<open>try\<close> block of one entry (lines 496-519): whether it ran to its end, and the
  pages it added to the document. \<^verbatim>\<open>new_page\<close> has already added its page when
  \<^verbatim>\<open>insert_image\<close> raises.
\<close>

definition pdf_try :: "world \<Rightarrow> compression \<Rightarrow> path \<Rightarrow> bool \<times> pdf_page list" where
  "pdf_try w c f =
     (case image_open w f of
        None \<Rightarrow> (False, [])
      | Some img \<Rightarrow>
          (case c of
             Lossless \<Rightarrow>
               (let page = new_page (img_width img) (img_height img) in
                if insert_image_ok w (OriginalFile f)
                then (True, [page\<lparr>page_image := Some (OriginalFile f)\<rparr>])
                else (False, [page]))
           | Compress q \<Rightarrow>
               (let img' = normalize_mode w img in
                if img_mode img' \<notin> set jpeg_modes \<or> \<not> jpeg_save_ok w img' q then (False, [])
                else
                  (let img_data = JpegStream img' q;
                       page = new_page (img_width img) (img_height img)
                   in if insert_image_ok w img_data
                      then (True, [page\<lparr>page_image := Some img_data\<rparr>])
                      else (False, [page])))))"

text \<open>
  The loop body (lines 488-527) on the document, the running \<^verbatim>\<open>total_size\<close> and the
  object. \<^verbatim>\<open>os.path.getsize\<close> is outside the \<^verbatim>\<open>try\<close>; the \<^verbatim>\<open>except\<close> branch logs and
  \<^verbatim>\<open>continue\<close>s, so the progress update below it is not reached.
\<close>

definition pdf_body ::
  "world \<Rightarrow> quality_mode \<Rightarrow> nat \<Rightarrow> nat \<times> path \<Rightarrow> pdf_page list \<times> nat \<times> app
   \<Rightarrow> py_error option \<times> pdf_page list \<times> nat \<times> app" where
  "pdf_body w qm n x st =
     (case (x, st) of ((i, f), (doc, total_size, s)) \<Rightarrow>
        (case getsize w f of
           None \<Rightarrow> (Some OSError, doc, total_size, s)
         | Some file_size \<Rightarrow>
             (let s1 = add_log s (LogProcessing (i + 1) n (basename w f));
                  s2 = s1\<lparr>status_label := StatusProcessing (basename w f)\<rparr>;
                  r = pdf_try w (pdf_compression qm) f
              in if fst r
                 then (None, doc @ snd r, total_size + file_size,
                       s2\<lparr>progress_calls := progress_calls s2 @ [SetItem i n]\<rparr>)
                 else (None, doc @ snd r, total_size + file_size, add_log s2 LogWarnProcess))))"

text \<open>
  The ratio logged at the end, \<^verbatim>\<open>(1 - output_size / total_size) * 100 if total_size > 0
  else 0\<close>, as an exact fraction.
\<close>

definition compression_ratio :: "nat \<Rightarrow> nat \<Rightarrow> rat" where
  "compression_ratio output_size total_size =
     (if total_size > 0 then (1 - of_nat output_size / of_nat total_size) * 100 else 0)"

definition convert_to_pdf :: "world \<Rightarrow> app \<Rightarrow> path \<Rightarrow> py_error option \<times> app" where
  "convert_to_pdf w s output_file =
     (let quality_mode = pdf_quality_var s;
          s0 = add_log s (LogPdfStart quality_mode);
          total_files = length (image_files s)
      in case run_items (pdf_body w quality_mode total_files) (enumerate 0 (image_files s))
                ([], 0, s0) of
           (Some e, doc, total_size, s1) \<Rightarrow> (Some e, s1)
         | (None, doc, total_size, s1) \<Rightarrow>
             (let s2 = add_log s1 LogSavingPdf in
              if \<not> save_ok w output_file (PdfDoc doc) then (Some SaveError, s2)
              else
                (let s3 = s2\<lparr>files_written := files_written s2 @ [(output_file, PdfDoc doc)]\<rparr>;
                     output_size = saved_size w (PdfDoc doc);
                     s4 = add_log s3 LogPdfDone;
                     s5 = add_log s4 (LogOriginalSize total_size);
                     s6 = add_log s5 (LogPdfSize output_size)
                 in (None, add_log s6 (LogRatio (compression_ratio output_size total_size))))))"

subsection \<open>The PPT exporter (lines 542-617)\<close>

text \<open>
  python-pptx lengths are integers in English Metric Units: \<^verbatim>\<open>Inches(x)\<close> is
  \<^verbatim>\<open>int(x * 914400)\<close> and \<^verbatim>\<open>Pt(x)\<close> is \<^verbatim>\<open>int(x * 12700)\<close>. The presentation
  \<^verbatim>\<open>Presentation()\<close> creates has a slide of 10 by 7.5 inches. \<^verbatim>\<open>int\<close> truncates towards
  zero.
\<close>

definition py_int :: "rat \<Rightarrow> int" where
  "py_int x = (if x \<ge> 0 then \<lfloor>x\<rfloor> else \<lceil>x\<rceil>)"

definition Inches :: "rat \<Rightarrow> int" where
  "Inches x = py_int (x * 914400)"

definition Pt :: "rat \<Rightarrow> int" where
  "Pt x = py_int (x * 12700)"

definition slide_width :: int where
  "slide_width = 9144000"

definition slide_height :: int where
  "slide_height = 6858000"

text \<open>
  Lines 572-597: \<open>(left, top, img_width, img_height)\<close> for an image of \<open>ow\<close> by \<open>oh\<close>
  pixels. The first branch divides by both pixel counts, which raises for a zero, and
  otherwise computes in floating point: its result is the environment's \<open>float_fit\<close>.
\<close>

definition ppt_placement ::
  "world \<Rightarrow> ppt_layout \<Rightarrow> nat \<Rightarrow> nat \<Rightarrow> py_error + (int \<times> int \<times> int \<times> int)" where
  "ppt_placement w layout ow oh =
     (if layout = FullScreenFill then
        (if ow = 0 \<or> oh = 0 then Inl ZeroDivisionError
         else Inr (float_fit w ow oh))
      else if layout = CenteredImage then
        (let iw = int ow; ih = int oh
         in Inr (py_int (of_int (slide_width - iw) / 2),
                 py_int (of_int (slide_height - ih) / 2), iw, ih))
      else Inr (Inches (1 / 2), Inches (1 / 2), int ow, int oh))"

definition empty_slide :: slide where
  "empty_slide = \<lparr>slide_picture = None\<rparr>"

text \<open>The arguments \<^verbatim>\<open>add_picture\<close> is called with (line 601), or the exception of the layout.\<close>

definition ppt_picture ::
  "world \<Rightarrow> ppt_layout \<Rightarrow> path \<Rightarrow> pil_image \<Rightarrow> py_error + picture" where
  "ppt_picture w layout f img =
     (case ppt_placement w layout (img_width img) (img_height img) of
        Inl e \<Rightarrow> Inl e
      | Inr (x_left, y_top, iw, ih) \<Rightarrow>
          Inr \<lparr>pic_file = f, pic_left = x_left, pic_top = y_top,
               pic_width = iw, pic_height = ih\<rparr>)"

text \<open>
  The loop body (lines 552-608). The slide is added before the picture is inserted; both
  \<^verbatim>\<open>except\<close> branches log and \<^verbatim>\<open>continue\<close>.
\<close>

definition ppt_body ::
  "world \<Rightarrow> ppt_layout \<Rightarrow> nat \<Rightarrow> nat \<times> path \<Rightarrow> slide list \<times> app
   \<Rightarrow> py_error option \<times> slide list \<times> app" where
  "ppt_body w layout n x st =
     (case (x, st) of ((i, f), (prs, s)) \<Rightarrow>
        (case getsize w f of
           None \<Rightarrow> (Some OSError, prs, s)
         | Some file_size \<Rightarrow>
             (let s1 = add_log s (LogProcessing (i + 1) n (basename w f));
                  s2 = s1\<lparr>status_label := StatusProcessing (basename w f)\<rparr>
              in case image_open w f of
                   None \<Rightarrow> (None, prs, add_log s2 LogWarnSize)
                 | Some img \<Rightarrow>
                     (case ppt_picture w layout f img of
                        Inl e \<Rightarrow> (Some e, prs @ [empty_slide], s2)
                      | Inr pic \<Rightarrow>
                          if add_picture_ok w pic
                          then (None, prs @ [\<lparr>slide_picture = Some pic\<rparr>],
                                s2\<lparr>progress_calls := progress_calls s2 @ [SetItem i n]\<rparr>)
                          else (None, prs @ [empty_slide], add_log s2 LogWarnInsert)))))"

text \<open>
  A summary of the body for one entry, used to state what a whole run does: whether the
  entry reaches the progress update, and the slides it adds.
\<close>

definition ppt_try :: "world \<Rightarrow> ppt_layout \<Rightarrow> path \<Rightarrow> bool \<times> slide list" where
  "ppt_try w layout f =
     (case image_open w f of
        None \<Rightarrow> (False, [])
      | Some img \<Rightarrow>
          (case ppt_picture w layout f img of
             Inl e \<Rightarrow> (False, [empty_slide])
           | Inr pic \<Rightarrow>
               if add_picture_ok w pic then (True, [\<lparr>slide_picture = Some pic\<rparr>])
               else (False, [empty_slide])))"

definition convert_to_ppt :: "world \<Rightarrow> app \<Rightarrow> path \<Rightarrow> py_error option \<times> app" where
  "convert_to_ppt w s output_file =
     (let s0 = add_log s LogPptStart;
          total_files = length (image_files s);
          ppt_layout = ppt_layout_var s
      in case run_items (ppt_body w ppt_layout total_files) (enumerate 0 (image_files s))
                ([], s0) of
           (Some e, prs, s1) \<Rightarrow> (Some e, s1)
         | (None, prs, s1) \<Rightarrow>
             (let s2 = add_log s1 LogSavingPpt in
              if \<not> save_ok w output_file (PptDoc prs) then (Some SaveError, s2)
              else
                (let s3 = s2\<lparr>files_written := files_written s2 @ [(output_file, PptDoc prs)]\<rparr>;
                     output_size = saved_size w (PptDoc prs);
                     s4 = add_log s3 LogPptDone;
                     s5 = add_log s4 (LogSlideCount total_files)
                 in (None, add_log s5 (LogPptSize output_size)))))"

text \<open>\<^verbatim>\<open>convert_images\<close> (lines 443-464), the worker thread's target.\<close>

definition convert_images :: "world \<Rightarrow> app \<Rightarrow> path \<Rightarrow> app" where
  "convert_images w s output_file =
     (let r = (if selected_format s = PDF then convert_to_pdf w s output_file
               else convert_to_ppt w s output_file);
          t = snd r;
          t' = (case fst r of
                  None \<Rightarrow>
                    (add_log t (LogConvertDone output_file))
                      \<lparr>status_label := StatusSuccess,
                       dialogs := dialogs t @ [InfoDone output_file]\<rparr>
                | Some e \<Rightarrow>
                    (add_log t (LogConvertFailed e))
                      \<lparr>status_label := StatusFailed,
                       dialogs := dialogs t @ [ErrorFailed e]\<rparr>)
      in t'\<lparr>convert_btn := True\<rparr>)"

subsection \<open>Concrete inputs\<close>

text \<open>
  The path functions of \<^verbatim>\<open>posixpath\<close>, for the examples: \<^verbatim>\<open>join\<close> of two arguments,
  \<^verbatim>\<open>dirname\<close> and \<^verbatim>\<open>basename\<close> (the two halves of \<^verbatim>\<open>split\<close>), and the root that
  \<^verbatim>\<open>splitext\<close> gives for a name without separator.
\<close>

definition posix_join :: "path \<Rightarrow> string \<Rightarrow> path" where
  "posix_join a b =
     (if take 1 b = ''/'' then b
      else if a = [] \<or> last a = CHR ''/'' then a @ b
      else a @ ''/'' @ b)"

definition posix_dirname :: "path \<Rightarrow> path" where
  "posix_dirname p =
     (let head = rev (dropWhile (\<lambda>c. c \<noteq> CHR ''/'') (rev p))
      in if head \<noteq> [] \<and> \<not> list_all (\<lambda>c. c = CHR ''/'') head
         then rev (dropWhile (\<lambda>c. c = CHR ''/'') (rev head))
         else head)"

definition posix_basename :: "path \<Rightarrow> string" where
  "posix_basename p = rev (takeWhile (\<lambda>c. c \<noteq> CHR ''/'') (rev p))"

definition name_root :: "string \<Rightarrow> string" where
  "name_root n =
     (let tail = takeWhile (\<lambda>c. c \<noteq> CHR ''.'') (rev n)
      in if length tail = length n then n
         else
           (let root = take (length n - length tail - 1) n
            in if list_all (\<lambda>c. c = CHR ''.'') root then n else root))"

text \<open>
  The same of \<^verbatim>\<open>ntpath\<close>, for paths of the form \<^verbatim>\<open>C:/dir\<close> (an optional drive letter
  and root, no UNC prefix) and a second argument of \<^verbatim>\<open>join\<close> that is a bare name. The
  separators are the slash and the backslash (\<open>CHR 0x5C\<close>).
\<close>

definition nt_sep :: "char \<Rightarrow> bool" where
  "nt_sep c = (c = CHR ''/'' \<or> c = CHR 0x5C)"

definition nt_join :: "path \<Rightarrow> string \<Rightarrow> path" where
  "nt_join a b =
     (if a = [] \<or> nt_sep (last a) \<or> last a = CHR '':'' then a @ b
      else a @ [CHR 0x5C] @ b)"

definition nt_drive_root :: "path \<Rightarrow> path" where
  "nt_drive_root p =
     (let drive = (if 2 \<le> length p \<and> p ! 1 = CHR '':'' then take 2 p else []);
          rest = drop (length drive) p
      in drive @ (if rest \<noteq> [] \<and> nt_sep (hd rest) then take 1 rest else []))"

definition nt_dirname :: "path \<Rightarrow> path" where
  "nt_dirname p =
     (let dr = nt_drive_root p;
          head = rev (dropWhile (\<lambda>c. \<not> nt_sep c) (rev (drop (length dr) p)))
      in dr @ rev (dropWhile nt_sep (rev head)))"

definition nt_basename :: "path \<Rightarrow> string" where
  "nt_basename p = rev (takeWhile (\<lambda>c. \<not> nt_sep c) (rev (drop (length (nt_drive_root p)) p)))"

text \<open>\<open>flat_image m px\<close>: an image of 800 by 600 pixels of mode \<open>m\<close>, every pixel \<open>px\<close>.\<close>

definition flat_image :: "string \<Rightarrow> nat list \<Rightarrow> pil_image" where
  "flat_image m px =
     \<lparr>img_width = 800, img_height = 600, img_mode = m, img_pixels = (\<lambda>x y. px)\<rparr>"

text \<open>
  A small environment and object for the examples below: a POSIX system with a folder
  \<^verbatim>\<open>pics\<close>, every file present and 1000 bytes long, every image 800 by 600 RGB, every
  library call succeeding; \<open>float_fit\<close> is the value lines 574-582 give for an image of
  800 by 600 pixels, which fills the slide, and \<open>cmyk2rgb\<close> a stand-in. The examples
  change single fields of it: \<open>broken_world bad\<close> is the environment in which
  \<^verbatim>\<open>Image.open\<close> raises for the file \<open>bad\<close>; \<open>pics_world names\<close> the one where \<^verbatim>\<open>pics\<close>
  holds the entries \<open>names\<close>, in that order; \<open>win_world names\<close> a Windows system where
  \<^verbatim>\<open>C:/pics\<close> holds them. \<open>pdf_app fs\<close> and \<open>ppt_app fs\<close> are the object with the entries
  \<open>fs\<close>, no row selected, and the PDF or the PPT format chosen.
\<close>

definition example_world :: world where
  "example_world =
     \<lparr>windows = False,
      isdir = (\<lambda>d. d \<in> set [''pics'', ''pics/'', ''pics//'']),
      listdir = (\<lambda>d. []),
      glob_dirs = (\<lambda>d. []),
      path_join = posix_join,
      basename = posix_basename,
      dirname = posix_dirname,
      splitext_root = name_root,
      getsize = (\<lambda>p. Some 1000),
      image_open = (\<lambda>p. Some (flat_image ''RGB'' [200, 100, 50])),
      jpeg_save_ok = (\<lambda>img q. True),
      insert_image_ok = (\<lambda>c. True),
      add_picture_ok = (\<lambda>p. True),
      save_ok = (\<lambda>p d. True),
      saved_size = (\<lambda>d. 500),
      cmyk2rgb = (\<lambda>px. map (\<lambda>v. 255 - min 255 (v + px ! 3)) (take 3 px)),
      float_fit = (\<lambda>ow oh. (0, 0, 9144000, 6858000))\<rparr>"

definition broken_world :: "path \<Rightarrow> world" where
  "broken_world bad =
     example_world\<lparr>image_open := (\<lambda>p. if p = bad then None
        else Some (flat_image ''RGB'' [200, 100, 50]))\<rparr>"

definition pics_world :: "string list \<Rightarrow> world" where
  "pics_world names =
     example_world\<lparr>listdir := (\<lambda>d. if d = ''pics'' then names else [])\<rparr>"

definition win_world :: "string list \<Rightarrow> world" where
  "win_world names =
     example_world\<lparr>windows := True,
        isdir := (\<lambda>d. d \<in> set [''C:/pics'', ''C:/pics/'']),
        listdir := (\<lambda>d. if d = ''C:/pics'' then names else []),
        path_join := nt_join, basename := nt_basename, dirname := nt_dirname\<rparr>"

definition example_app :: "path list \<Rightarrow> bool list \<Rightarrow> app" where
  "example_app fs rows =
     \<lparr>image_files = fs, listbox = rows, count_label = length fs,
      path_entry = ''pics'', output_entry = ''pics/out.pdf'',
      format_var = AllImages, selected_format = PDF,
      pdf_quality_var = QInitial, ppt_layout_var = BlankPage,
      convert_btn = True, progress_calls = [], status_label = StatusReady,
      log_text = [], dialogs = [], files_written = []\<rparr>"

definition pdf_app :: "path list \<Rightarrow> app" where
  "pdf_app fs = example_app fs (replicate (length fs) False)"

definition ppt_app :: "path list \<Rightarrow> app" where
  "ppt_app fs = (example_app fs (replicate (length fs) False))\<lparr>selected_format := PPT\<rparr>"

section \<open>Properties\<close>

subsection \<open>Selection and reordering\<close>

lemma set_curselection: "set (curselection s) = {i. i < length (listbox s) \<and> listbox s ! i}"
  by (auto simp: curselection_def)


lemma image_files_add_log [simp]: "image_files (add_log s m) = image_files s"
  by (simp add: add_log_def)

lemma image_files_selection_set [simp]: "image_files (selection_set s i) = image_files s"
  by (simp add: selection_set_def)

lemma image_files_fold_selection [simp]:
  "image_files (foldl (\<lambda>u i. selection_set u (g i)) t xs) = image_files t"
  by (induction xs arbitrary: t) simp_all

lemma image_files_update_listbox [simp]:
  "image_files (snd (update_listbox w s)) = image_files s"
  by (simp add: update_listbox_def split: prod.splits option.splits)

lemma length_swap_items [simp]: "length (swap_items xs i j) = length xs"
  by (simp add: swap_items_def)

lemma mset_swap_items: "i < length xs \<Longrightarrow> j < length xs \<Longrightarrow> mset (swap_items xs i j) = mset xs"
  unfolding swap_items_def by (rule mset_swap)

lemma length_move_up_loop [simp]: "length (snd (move_up_loop fs sel)) = length fs"
  by (induction fs sel rule: move_up_loop.induct) simp_all

lemma mset_move_up_loop: "mset (snd (move_up_loop fs sel)) = mset fs"
  by (induction fs sel rule: move_up_loop.induct) (simp_all add: mset_swap_items)

lemma length_move_down_loop [simp]: "length (move_down_loop fs sel) = length fs"
  by (induction fs sel rule: move_down_loop.induct) simp_all

lemma mset_move_down_loop: "mset (move_down_loop fs sel) = mset fs"
  by (induction fs sel rule: move_down_loop.induct) (simp_all add: mset_swap_items)







lemma fold_selection_set_length [simp]:
  "length (listbox (foldl (\<lambda>t i. if i \<notin> sel then selection_set t i else t) s xs)) =
   length (listbox s)"
  by (induction xs arbitrary: s) (simp_all add: selection_set_def)

lemma nth_selection_set:
  "j < length (listbox s) \<Longrightarrow> listbox (selection_set s i) ! j = (listbox s ! j \<or> j = i)"
  by (cases "j = i") (simp_all add: selection_set_def)

lemma length_selection_set [simp]: "length (listbox (selection_set s i)) = length (listbox s)"
  by (simp add: selection_set_def)

lemma fold_selection_set_nth:
  "j < length (listbox s) \<Longrightarrow>
   listbox (foldl (\<lambda>t i. if i \<notin> sel then selection_set t i else t) s xs) ! j =
   (listbox s ! j \<or> (j \<in> set xs \<and> j \<notin> sel))"
proof (induction xs arbitrary: s)
  case Nil
  show ?case by simp
next
  case (Cons x xs)
  show ?case
  proof (cases "x \<in> sel")
    case True
    with Cons show ?thesis by auto
  next
    case False
    have "listbox (foldl (\<lambda>t i. if i \<notin> sel then selection_set t i else t)
             (selection_set s x) xs) ! j =
          (listbox (selection_set s x) ! j \<or> (j \<in> set xs \<and> j \<notin> sel))"
      using Cons.prems by (intro Cons.IH) simp
    also have "\<dots> = ((listbox s ! j \<or> j = x) \<or> (j \<in> set xs \<and> j \<notin> sel))"
      using Cons.prems by (simp add: nth_selection_set)
    finally show ?thesis using False by auto
  qed
qed

lemma listbox_reverse_selection:
  "listbox (reverse_selection s) = replicate (length (listbox s)) True"
proof (rule nth_equalityI)
  show "length (listbox (reverse_selection s)) = length (replicate (length (listbox s)) True)"
    by (simp add: reverse_selection_def)
next
  fix j assume "j < length (listbox (reverse_selection s))"
  then have j: "j < length (listbox s)" by (simp add: reverse_selection_def)
  then have "listbox (reverse_selection s) ! j =
      (listbox s ! j \<or> (j \<in> set [0..<length (listbox s)] \<and> j \<notin> set (curselection s)))"
    unfolding reverse_selection_def Let_def by (rule fold_selection_set_nth)
  with j have "listbox (reverse_selection s) ! j"
    by (simp add: set_curselection)
  with j show "listbox (reverse_selection s) ! j = replicate (length (listbox s)) True ! j"
    by simp
qed

lemma reverse_selection_selects_all:
  "curselection (reverse_selection s) = [0..<length (listbox s)]"
  by (simp add: curselection_def listbox_reverse_selection filter_id_conv)




text \<open>
  C2. \<^verbatim>\<open>reverse_selection\<close> is to yield the complement of the selection: every row not
  selected becomes selected and every selected row becomes unselected. The method only
  ever calls \<^verbatim>\<open>selection_set\<close>, so the rows selected before stay selected and every row
  ends selected (\<open>reverse_selection_selects_all\<close>). With three rows of which row 0 is
  selected, the result is rows 0, 1, 2, not the complement 1, 2.
\<close>

theorem reverse_selection_keeps_selected:
  "curselection (example_app [''a'', ''b'', ''c''] [True, False, False]) = [0] \<and>
   curselection (reverse_selection (example_app [''a'', ''b'', ''c''] [True, False, False]))
     = [0, 1, 2]"
  by (simp add: reverse_selection_def example_app_def curselection_def selection_set_def upt_rec)




text \<open>
  C10. \<^verbatim>\<open>move_up\<close> and \<^verbatim>\<open>move_down\<close> leave the entries a permutation of what they
  were: the same multiset of paths and the same length, whatever the selection and
  whether or not the method returns normally.
\<close>

theorem reorder_keeps_entries:
  "mset (image_files (snd (move_up w s))) = mset (image_files s) \<and>
   length (image_files (snd (move_up w s))) = length (image_files s) \<and>
   mset (image_files (snd (move_down w s))) = mset (image_files s) \<and>
   length (image_files (snd (move_down w s))) = length (image_files s)"
proof -
  have up: "mset (image_files (snd (move_up w s))) = mset (image_files s)"
  proof (cases "move_up_loop (image_files s) (curselection s)")
    case (Pair e fs)
    then have "mset fs = mset (image_files s)"
      using mset_move_up_loop [of "image_files s" "curselection s"] by simp
    with Pair show ?thesis
      by (cases "update_listbox w (s\<lparr>image_files := fs\<rparr>)")
         (use image_files_update_listbox [of w "s\<lparr>image_files := fs\<rparr>"] in
           \<open>auto simp: move_up_def Let_def split: list.splits option.splits\<close>)
  qed
  have down: "mset (image_files (snd (move_down w s))) = mset (image_files s)"
    by (cases "update_listbox w (s\<lparr>image_files := move_down_loop (image_files s) (rev (curselection s))\<rparr>)")
       (use image_files_update_listbox [of w "s\<lparr>image_files := move_down_loop (image_files s) (rev (curselection s))\<rparr>"] in
           \<open>auto simp: move_down_def Let_def mset_move_down_loop split: option.splits\<close>)
  from up down show ?thesis by (metis size_mset)
qed

subsection \<open>Scanning\<close>

lemma image_files_scan_invalid:
  "strip (path_entry s) = [] \<or> \<not> isdir w (strip (path_entry s)) \<Longrightarrow>
   scan_folder w exts s = (None, add_log s LogScanError)"
  by (auto simp: scan_folder_def Let_def)

lemma image_files_scan_valid:
  assumes "strip (path_entry s) \<noteq> []" "isdir w (strip (path_entry s))"
  shows "image_files (snd (scan_folder w exts s)) =
         sort (remdups (concat (map (\<lambda>ext. if filter_skips (format_var s) ext then []
                                         else glob_star w (strip (path_entry s)) ext) exts)))"
proof -
  let ?found = "concat (map (\<lambda>ext. if filter_skips (format_var s) ext then []
                                         else glob_star w (strip (path_entry s)) ext) exts)"
  let ?s1 = "s\<lparr>image_files := sort (remdups ?found)\<rparr>"
  have u: "image_files (snd (update_listbox w ?s1)) = sort (remdups ?found)"
    by simp
  show ?thesis
    using assms u
    by (cases "update_listbox w ?s1")
       (auto simp: scan_folder_def Let_def split: option.splits list.splits)
qed

lemma normcase_supported:
  "ext \<in> set SUPPORTED_FORMATS \<Longrightarrow> normcase w ext = ext"
  by (auto simp: SUPPORTED_FORMATS_def normcase_def ascii_lower_def)

lemma set_glob_star:
  assumes "dirname w (path_join w folder (CHR ''*'' # ext)) = d" and "d \<noteq> []"
    and "\<not> has_magic d"
  shows "set (glob_star w folder ext) =
     path_join w d ` {n \<in> set (listdir w d).
        \<not> ishidden n \<and> endswith (normcase w n) (normcase w ext)}"
  using assms by (auto simp: glob_star_def glob1_def Let_def)

text \<open>
  C4, as the code has it. For a path entry that is blank, missing or not a directory,
  \<^verbatim>\<open>scan_folder\<close> returns without raising, appends the diagnostic to the log and leaves
  the entries and the list rows as they were: the catalog is empty afterwards only if it
  was empty before.
\<close>

theorem scan_invalid_folder:
  assumes "strip (path_entry s) = [] \<or> \<not> isdir w (strip (path_entry s))"
  shows "fst (scan_folder w exts s) = None
       \<and> image_files (snd (scan_folder w exts s)) = image_files s
       \<and> listbox (snd (scan_folder w exts s)) = listbox s
       \<and> log_text (snd (scan_folder w exts s)) = log_text s @ [LogScanError]"
  using image_files_scan_invalid [OF assms, of exts] by (simp add: add_log_def)

text \<open>
  The theorem at a path entry made of a space and the ideographic space U+3000, with one
  entry already in the catalog.
\<close>

theorem scan_invalid_folder_witness:
  "strip (path_entry ((example_app [''pics/a.jpg''] [False])
       \<lparr>path_entry := [CHR 0x20, CHR 0xE3, CHR 0x80, CHR 0x80]\<rparr>)) = [] \<and>
   fst (scan_folder example_world SUPPORTED_FORMATS
          ((example_app [''pics/a.jpg''] [False])
             \<lparr>path_entry := [CHR 0x20, CHR 0xE3, CHR 0x80, CHR 0x80]\<rparr>)) = None \<and>
   image_files (snd (scan_folder example_world SUPPORTED_FORMATS
          ((example_app [''pics/a.jpg''] [False])
             \<lparr>path_entry := [CHR 0x20, CHR 0xE3, CHR 0x80, CHR 0x80]\<rparr>))) = [''pics/a.jpg''] \<and>
   log_text (snd (scan_folder example_world SUPPORTED_FORMATS
          ((example_app [''pics/a.jpg''] [False])
             \<lparr>path_entry := [CHR 0x20, CHR 0xE3, CHR 0x80, CHR 0x80]\<rparr>))) = [LogScanError]"
proof -
  let ?s = "(example_app [''pics/a.jpg''] [False])
       \<lparr>path_entry := [CHR 0x20, CHR 0xE3, CHR 0x80, CHR 0x80]\<rparr>"
  have "strip [CHR 0x20, CHR 0xE3, CHR 0x80, CHR 0x80] = []" by code_simp
  then have blank: "strip (path_entry ?s) = []" by simp
  then have "strip (path_entry ?s) = [] \<or> \<not> isdir example_world (strip (path_entry ?s))"
    by (rule disjI1)
  from scan_invalid_folder [OF this, of SUPPORTED_FORMATS] blank show ?thesis
    by (simp add: example_app_def)
qed

text \<open>
  C4 as stated fails: scanning a folder that does not exist, with one entry in the
  catalog from an earlier scan, leaves that entry in the catalog; the result is not an
  empty catalog.
\<close>

theorem scan_missing_folder_counterexample:
  "\<not> isdir example_world
       (strip (path_entry ((example_app [''pics/a.jpg''] [False])\<lparr>path_entry := ''nowhere''\<rparr>))) \<and>
   image_files (snd (scan_folder example_world SUPPORTED_FORMATS
       ((example_app [''pics/a.jpg''] [False])\<lparr>path_entry := ''nowhere''\<rparr>))) = [''pics/a.jpg'']"
  by code_simp

text \<open>
  C6, as the code has it. Let the stripped path entry be a directory, and let \<open>d\<close> be the
  directory part \<^verbatim>\<open>glob\<close> splits off the pattern for it (the folder without its trailing
  separators), not empty and holding none of the characters \<^verbatim>\<open>* ? [\<close>. Then, for any
  order in which the extension set is visited, the catalog after \<^verbatim>\<open>scan_folder\<close> is
  made of exactly the entries of \<open>d\<close> whose name does not start with a dot and, after the
  platform's case normalisation (lower-casing on Windows, none elsewhere), ends with a
  supported extension that the chosen filter lets through, each joined to \<open>d\<close>; it is
  sorted ascending, has no duplicate, and is the same for every order in which the
  system lists the folder and in which the extensions are visited.
\<close>

theorem scan_catalog:
  assumes exts: "set exts = set SUPPORTED_FORMATS"
    and folder: "strip (path_entry s) \<noteq> []" "isdir w (strip (path_entry s))"
    and dir: "\<forall>ext\<in>set SUPPORTED_FORMATS.
                dirname w (path_join w (strip (path_entry s)) (CHR ''*'' # ext)) = d"
    and plain: "d \<noteq> []" "\<not> has_magic d"
  shows "set (image_files (snd (scan_folder w exts s))) =
           set (map (path_join w d)
                  (filter (\<lambda>n. \<not> ishidden n \<and>
                              list_ex (\<lambda>ext. \<not> filter_skips (format_var s) ext \<and>
                                              endswith (normcase w n) ext) SUPPORTED_FORMATS)
                     (listdir w d)))
       \<and> sorted (image_files (snd (scan_folder w exts s)))
       \<and> distinct (image_files (snd (scan_folder w exts s)))
       \<and> (\<forall>exts' entries'.
            set exts' = set SUPPORTED_FORMATS \<and> set (entries' d) = set (listdir w d) \<longrightarrow>
            image_files (snd (scan_folder (w\<lparr>listdir := entries'\<rparr>) exts' s)) =
            image_files (snd (scan_folder w exts s)))"
proof -
  let ?f = "strip (path_entry s)"
  let ?match = "\<lambda>v n. \<not> ishidden n \<and>
       list_ex (\<lambda>ext. \<not> filter_skips (format_var s) ext \<and> endswith (normcase v n) ext)
         SUPPORTED_FORMATS"
  have key: "set (image_files (snd (scan_folder v xs s))) =
             set (map (path_join v d) (filter (?match v) (listdir v d)))"
    and srt: "sorted (image_files (snd (scan_folder v xs s)))"
    and dst: "distinct (image_files (snd (scan_folder v xs s)))"
    if xs: "set xs = set SUPPORTED_FORMATS" and v: "isdir v ?f"
      and vd: "\<forall>ext\<in>set SUPPORTED_FORMATS. dirname v (path_join v ?f (CHR ''*'' # ext)) = d"
    for v xs
  proof -
    have img: "image_files (snd (scan_folder v xs s)) =
          sort (remdups (concat (map (\<lambda>ext. if filter_skips (format_var s) ext then []
                                         else glob_star v ?f ext) xs)))"
      using folder(1) v by (rule image_files_scan_valid)
    show "sorted (image_files (snd (scan_folder v xs s)))"
      and "distinct (image_files (snd (scan_folder v xs s)))"
      unfolding img by simp_all
    have "set (image_files (snd (scan_folder v xs s))) =
          (\<Union>ext\<in>{e \<in> set xs. \<not> filter_skips (format_var s) e}. set (glob_star v ?f ext))"
      unfolding img by auto
    also have "\<dots> = (\<Union>ext\<in>{e \<in> set SUPPORTED_FORMATS. \<not> filter_skips (format_var s) e}.
          path_join v d ` {n \<in> set (listdir v d).
             \<not> ishidden n \<and> endswith (normcase v n) ext})"
      using vd plain by (simp add: set_glob_star normcase_supported xs)
    also have "\<dots> = set (map (path_join v d) (filter (?match v) (listdir v d)))"
      by (auto simp: list_ex_iff)
    finally show "set (image_files (snd (scan_folder v xs s))) =
             set (map (path_join v d) (filter (?match v) (listdir v d)))" .
  qed
  have indep: "image_files (snd (scan_folder (w\<lparr>listdir := entries'\<rparr>) exts' s)) =
            image_files (snd (scan_folder w exts s))"
    if e': "set exts' = set SUPPORTED_FORMATS"
      and l': "set (entries' d) = set (listdir w d)" for exts' entries'
  proof (rule sorted_distinct_set_unique)
    let ?w' = "w\<lparr>listdir := entries'\<rparr>"
    have d': "isdir ?w' ?f" using folder(2) by simp
    have vd': "\<forall>ext\<in>set SUPPORTED_FORMATS.
        dirname ?w' (path_join ?w' ?f (CHR ''*'' # ext)) = d"
      using dir by simp
    show "sorted (image_files (snd (scan_folder ?w' exts' s)))" by (rule srt [OF e' d' vd'])
    show "distinct (image_files (snd (scan_folder ?w' exts' s)))" by (rule dst [OF e' d' vd'])
    show "sorted (image_files (snd (scan_folder w exts s)))"
      by (rule srt [OF exts folder(2) dir])
    show "distinct (image_files (snd (scan_folder w exts s)))"
      by (rule dst [OF exts folder(2) dir])
    have "normcase ?w' = normcase w" by (rule ext) (simp add: normcase_def)
    then show "set (image_files (snd (scan_folder ?w' exts' s))) =
          set (image_files (snd (scan_folder w exts s)))"
      unfolding key [OF e' d' vd'] key [OF exts folder(2) dir] using l' by simp
  qed
  from key [OF exts folder(2) dir] srt [OF exts folder(2) dir] dst [OF exts folder(2) dir]
    indep
  show ?thesis by blast
qed

text \<open>
  The theorem on Windows for the path entry \<^verbatim>\<open>C:/pics/\<close>, the extensions visited in
  reverse: the directory part is \<^verbatim>\<open>C:/pics\<close>, and of the entries \<^verbatim>\<open>b.png\<close>, \<^verbatim>\<open>A.JPG\<close>,
  \<^verbatim>\<open>notes.txt\<close>, \<^verbatim>\<open>a.tif\<close> the catalog holds the three images, joined to it with a
  backslash, sorted, and the same when the folder is listed in another order. And on a
  POSIX system for the path entry \<^verbatim>\<open>pics//\<close> followed by U+3000.
\<close>

theorem scan_catalog_witness:
  "set (rev SUPPORTED_FORMATS) = set SUPPORTED_FORMATS \<and>
   strip (path_entry ((example_app [] [])\<lparr>path_entry := ''C:/pics/''\<rparr>)) = ''C:/pics/'' \<and>
   isdir (win_world [''b.png'', ''A.JPG'', ''notes.txt'', ''a.tif'']) ''C:/pics/'' \<and>
   \<not> has_magic ''C:/pics'' \<and>
   set (image_files (snd (scan_folder (win_world [''b.png'', ''A.JPG'', ''notes.txt'', ''a.tif''])
          (rev SUPPORTED_FORMATS) ((example_app [] [])\<lparr>path_entry := ''C:/pics/''\<rparr>)))) =
     {''C:/pics'' @ CHR 0x5C # ''A.JPG'', ''C:/pics'' @ CHR 0x5C # ''a.tif'',
      ''C:/pics'' @ CHR 0x5C # ''b.png''} \<and>
   sorted (image_files (snd (scan_folder (win_world [''b.png'', ''A.JPG'', ''notes.txt'', ''a.tif''])
          (rev SUPPORTED_FORMATS) ((example_app [] [])\<lparr>path_entry := ''C:/pics/''\<rparr>)))) \<and>
   distinct (image_files (snd (scan_folder (win_world [''b.png'', ''A.JPG'', ''notes.txt'', ''a.tif''])
          (rev SUPPORTED_FORMATS) ((example_app [] [])\<lparr>path_entry := ''C:/pics/''\<rparr>)))) \<and>
   image_files (snd (scan_folder
          ((win_world [''b.png'', ''A.JPG'', ''notes.txt'', ''a.tif''])
             \<lparr>listdir := (\<lambda>d. [''a.tif'', ''notes.txt'', ''A.JPG'', ''b.png''])\<rparr>)
          SUPPORTED_FORMATS ((example_app [] [])\<lparr>path_entry := ''C:/pics/''\<rparr>))) =
     image_files (snd (scan_folder (win_world [''b.png'', ''A.JPG'', ''notes.txt'', ''a.tif''])
          (rev SUPPORTED_FORMATS) ((example_app [] [])\<lparr>path_entry := ''C:/pics/''\<rparr>))) \<and>
   strip (path_entry ((example_app [] [])
       \<lparr>path_entry := ''pics//'' @ [CHR 0xE3, CHR 0x80, CHR 0x80]\<rparr>)) = ''pics//'' \<and>
   set (image_files (snd (scan_folder (pics_world [''b.png'', ''notes.txt''])
          SUPPORTED_FORMATS ((example_app [] [])
             \<lparr>path_entry := ''pics//'' @ [CHR 0xE3, CHR 0x80, CHR 0x80]\<rparr>)))) = {''pics/b.png''}"
proof -
  let ?w = "win_world [''b.png'', ''A.JPG'', ''notes.txt'', ''a.tif'']"
  let ?s = "(example_app [] [])\<lparr>path_entry := ''C:/pics/''\<rparr>"
  let ?v = "pics_world [''b.png'', ''notes.txt'']"
  let ?t = "(example_app [] [])\<lparr>path_entry := ''pics//'' @ [CHR 0xE3, CHR 0x80, CHR 0x80]\<rparr>"
  have "strip ''C:/pics/'' = ''C:/pics/''" by code_simp
  then have f: "strip (path_entry ?s) = ''C:/pics/''" by simp
  have "strip (''pics//'' @ [CHR 0xE3, CHR 0x80, CHR 0x80]) = ''pics//''" by code_simp
  then have g: "strip (path_entry ?t) = ''pics//''" by simp
  have h1: "set (rev SUPPORTED_FORMATS) = set SUPPORTED_FORMATS" by simp
  have h1': "set SUPPORTED_FORMATS = set SUPPORTED_FORMATS" by simp
  have h2: "strip (path_entry ?s) \<noteq> []" and g2: "strip (path_entry ?t) \<noteq> []"
    by (simp_all only: f g) simp_all
  have i3: "isdir ?w ''C:/pics/''" by (simp add: win_world_def)
  then have h3: "isdir ?w (strip (path_entry ?s))" by (simp only: f)
  have "isdir ?v ''pics//''" by (simp add: pics_world_def example_world_def)
  then have g3: "isdir ?v (strip (path_entry ?t))" by (simp only: g)
  have "\<forall>ext\<in>set SUPPORTED_FORMATS.
          dirname ?w (path_join ?w ''C:/pics/'' (CHR ''*'' # ext)) = ''C:/pics''"
    by code_simp
  then have h4: "\<forall>ext\<in>set SUPPORTED_FORMATS.
          dirname ?w (path_join ?w (strip (path_entry ?s)) (CHR ''*'' # ext)) = ''C:/pics''"
    by (simp only: f)
  have "\<forall>ext\<in>set SUPPORTED_FORMATS.
          dirname ?v (path_join ?v ''pics//'' (CHR ''*'' # ext)) = ''pics''"
    by code_simp
  then have g4: "\<forall>ext\<in>set SUPPORTED_FORMATS.
          dirname ?v (path_join ?v (strip (path_entry ?t)) (CHR ''*'' # ext)) = ''pics''"
    by (simp only: g)
  have h5: "''C:/pics'' \<noteq> []" and g5: "''pics'' \<noteq> []" by simp_all
  have h6: "\<not> has_magic ''C:/pics''" and g6: "\<not> has_magic ''pics''"
    by (simp_all add: has_magic_def)
  have fv: "format_var ?s = AllImages" "format_var ?t = AllImages"
    by (simp_all add: example_app_def)
  have rhs: "set (map (path_join ?w ''C:/pics'')
                  (filter (\<lambda>n. \<not> ishidden n \<and>
                              list_ex (\<lambda>ext. \<not> filter_skips AllImages ext \<and>
                                              endswith (normcase ?w n) ext) SUPPORTED_FORMATS)
                     (listdir ?w ''C:/pics''))) =
     {''C:/pics'' @ CHR 0x5C # ''A.JPG'', ''C:/pics'' @ CHR 0x5C # ''a.tif'',
      ''C:/pics'' @ CHR 0x5C # ''b.png''}"
    by code_simp
  have rhs': "set (map (path_join ?v ''pics'')
                  (filter (\<lambda>n. \<not> ishidden n \<and>
                              list_ex (\<lambda>ext. \<not> filter_skips AllImages ext \<and>
                                              endswith (normcase ?v n) ext) SUPPORTED_FORMATS)
                     (listdir ?v ''pics''))) = {''pics/b.png''}"
    by code_simp
  have other: "set ([''a.tif'', ''notes.txt'', ''A.JPG'', ''b.png'']) = set (listdir ?w ''C:/pics'')"
    by (auto simp: win_world_def)
  note inst = scan_catalog [OF h1 h2 h3 h4 h5 h6]
  note inst' = scan_catalog [OF h1' g2 g3 g4 g5 g6]
  have c1: "set (image_files (snd (scan_folder ?w (rev SUPPORTED_FORMATS) ?s))) =
     {''C:/pics'' @ CHR 0x5C # ''A.JPG'', ''C:/pics'' @ CHR 0x5C # ''a.tif'',
      ''C:/pics'' @ CHR 0x5C # ''b.png''}"
    using inst [THEN conjunct1] unfolding fv rhs .
  have c2: "sorted (image_files (snd (scan_folder ?w (rev SUPPORTED_FORMATS) ?s)))"
    by (rule inst [THEN conjunct2, THEN conjunct1])
  have c3: "distinct (image_files (snd (scan_folder ?w (rev SUPPORTED_FORMATS) ?s)))"
    by (rule inst [THEN conjunct2, THEN conjunct2, THEN conjunct1])
  have c4: "image_files (snd (scan_folder
          (?w\<lparr>listdir := (\<lambda>d. [''a.tif'', ''notes.txt'', ''A.JPG'', ''b.png''])\<rparr>)
          SUPPORTED_FORMATS ?s)) =
     image_files (snd (scan_folder ?w (rev SUPPORTED_FORMATS) ?s))"
    using other
    by (intro inst [THEN conjunct2, THEN conjunct2, THEN conjunct2, rule_format]) simp
  have c5: "set (image_files (snd (scan_folder ?v SUPPORTED_FORMATS ?t))) = {''pics/b.png''}"
    using inst' [THEN conjunct1] unfolding fv rhs' .
  show ?thesis
    by (intro conjI h1 f i3 h6 c1 c2 c3 c4 g c5)
qed

text \<open>
  C6 as stated fails in three ways. On a POSIX system, of the entries \<^verbatim>\<open>b.png\<close>,
  \<^verbatim>\<open>.a.jpg\<close> and \<^verbatim>\<open>A.JPG\<close> only \<^verbatim>\<open>b.png\<close> is catalogued: the entry starting with
  a dot is left out although its extension is supported, and the upper-case extension is
  not matched. And a folder named \<^verbatim>\<open>pics[1]\<close> that holds \<^verbatim>\<open>c.png\<close> yields an empty
  catalog, the brackets being read as a pattern.
\<close>

theorem scan_catalog_counterexample:
  "image_files (snd (scan_folder (pics_world [''b.png'', ''.a.jpg'', ''A.JPG''])
      SUPPORTED_FORMATS (example_app [] []))) = [''pics/b.png''] \<and>
   isdir (example_world\<lparr>isdir := (\<lambda>d. d = ''pics[1]''),
            listdir := (\<lambda>d. if d = ''pics[1]'' then [''c.png''] else [])\<rparr>) ''pics[1]'' \<and>
   image_files (snd (scan_folder
      (example_world\<lparr>isdir := (\<lambda>d. d = ''pics[1]''),
         listdir := (\<lambda>d. if d = ''pics[1]'' then [''c.png''] else [])\<rparr>)
      SUPPORTED_FORMATS ((example_app [] [])\<lparr>path_entry := ''pics[1]''\<rparr>))) = []"
  by code_simp

subsection \<open>Starting a conversion\<close>

text \<open>
  C9. A request with an empty catalog, or with a blank output path, is turned down in
  \<^verbatim>\<open>start_conversion\<close> itself: no worker thread is started, so neither exporter runs, and
  the object is unchanged but for the warning dialog shown. Conversely the worker is
  started only when the catalog is not empty and the stripped output path is not blank.
\<close>

theorem start_conversion_rejects:
  assumes "image_files s = [] \<or> strip (output_entry s) = []"
  shows "snd (start_conversion s) = None
       \<and> fst (start_conversion s) =
           s\<lparr>dialogs := dialogs s @ [if image_files s = [] then WarnNoImages else WarnNoOutput]\<rparr>
       \<and> (\<forall>t. (snd (start_conversion t) = None) =
                (image_files t = [] \<or> strip (output_entry t) = []))"
  using assms by (auto simp: start_conversion_def Let_def)

text \<open>
  The theorem at an empty catalog, and at one entry with an output path made of a space
  and the ideographic space U+3000.
\<close>

theorem start_conversion_rejects_witness:
  "image_files (example_app [] []) = [] \<and>
   start_conversion (example_app [] []) =
     ((example_app [] [])\<lparr>dialogs := [WarnNoImages]\<rparr>, None) \<and>
   strip (output_entry ((example_app [''pics/a.png''] [False])
       \<lparr>output_entry := [CHR 0x20, CHR 0xE3, CHR 0x80, CHR 0x80]\<rparr>)) = [] \<and>
   start_conversion ((example_app [''pics/a.png''] [False])
       \<lparr>output_entry := [CHR 0x20, CHR 0xE3, CHR 0x80, CHR 0x80]\<rparr>) =
     ((example_app [''pics/a.png''] [False])
        \<lparr>output_entry := [CHR 0x20, CHR 0xE3, CHR 0x80, CHR 0x80], dialogs := [WarnNoOutput]\<rparr>,
      None)"
proof -
  let ?s = "example_app [] []"
  let ?t = "(example_app [''pics/a.png''] [False])
       \<lparr>output_entry := [CHR 0x20, CHR 0xE3, CHR 0x80, CHR 0x80]\<rparr>"
  have e: "image_files ?s = []" by (simp add: example_app_def)
  have "strip [CHR 0x20, CHR 0xE3, CHR 0x80, CHR 0x80] = []" by code_simp
  then have b: "strip (output_entry ?t) = []" by simp
  have ne: "image_files ?t \<noteq> []" by (simp add: example_app_def)
  have "start_conversion ?s = (?s\<lparr>dialogs := [WarnNoImages]\<rparr>, None)"
    using start_conversion_rejects [of ?s] e
    by (simp add: prod_eq_iff) (simp add: example_app_def)
  moreover have "start_conversion ?t = (?t\<lparr>dialogs := [WarnNoOutput]\<rparr>, None)"
    using start_conversion_rejects [of ?t] b ne
    by (simp add: prod_eq_iff) (simp add: example_app_def)
  ultimately show ?thesis using e b by simp
qed

subsection \<open>Placement on a slide\<close>

lemma Inches_half: "Inches (1 / 2) = 457200"
  by (simp add: Inches_def py_int_def)

lemma Pt_of_nat: "Pt (of_nat k) = 12700 * int k"
proof -
  have "(of_nat k :: rat) * 12700 = of_int (12700 * int k)" by simp
  then have "\<lfloor>(of_nat k :: rat) * 12700\<rfloor> = 12700 * int k"
    by (simp only: floor_of_int)
  then show ?thesis by (simp add: Pt_def py_int_def)
qed

lemma blank_placement:
  "ppt_placement w BlankPage ow oh = Inr (457200, 457200, int ow, int oh)"
  by (simp add: ppt_placement_def Inches_half)

lemma blank_size_not_points: "0 < ow \<Longrightarrow> int ow \<noteq> Pt (of_nat ow)"
  by (simp add: Pt_of_nat)

text \<open>
  C1. Under the blank layout the picture is to sit 0.5 inch from the top and the left and
  to measure one point per pixel. The offsets are \<^verbatim>\<open>Inches(0.5)\<close>, 457200 EMU; the width
  and height handed to \<^verbatim>\<open>add_picture\<close> are the bare pixel counts (\<open>blank_placement\<close>),
  which python-pptx reads in the same unit, EMU, and not in points: one point per pixel
  would be \<^verbatim>\<open>Pt(800)\<close> by \<^verbatim>\<open>Pt(600)\<close>, 12700 times as much (\<open>blank_size_not_points\<close>).
  The export of one image of 800 by 600 pixels:
\<close>

theorem blank_layout_size_in_emu:
  "files_written (snd (convert_to_ppt example_world
       ((example_app [''pics/a.png''] [False])\<lparr>selected_format := PPT\<rparr>) ''pics/out.pptx'')) =
     [(''pics/out.pptx'',
       PptDoc [\<lparr>slide_picture = Some \<lparr>pic_file = ''pics/a.png'', pic_left = 457200,
                  pic_top = 457200, pic_width = 800, pic_height = 600\<rparr>\<rparr>])] \<and>
   Inches (1 / 2) = 457200 \<and> Pt 800 = 10160000 \<and> Pt 600 = 7620000"
  by (simp add: convert_to_ppt_def ppt_body_def ppt_picture_def ppt_placement_def Inches_def
      Pt_def py_int_def flat_image_def
      example_world_def example_app_def add_log_def Let_def)

subsection \<open>The export loops\<close>

lemma add_log_fields [simp]:
  "progress_calls (add_log s m) = progress_calls s"
  "files_written (add_log s m) = files_written s"
  "log_text (add_log s m) = log_text s @ [m]"
  by (simp_all add: add_log_def)

lemma concat_map_snd_enumerate:
  "concat (map (\<lambda>x. g (snd x)) (enumerate k fs)) = concat (map g fs)"
  by (induction fs arbitrary: k) simp_all

lemma length_filter_snd_enumerate:
  "length (filter (\<lambda>x. P (snd x)) (enumerate k fs)) = length (filter P fs)"
  by (induction fs arbitrary: k) simp_all

lemma run_items_Cons_None:
  "body x st = (None, st') \<Longrightarrow> run_items body (x # xs) st = run_items body xs st'"
  by simp

lemma run_items_Cons_Some:
  "body x st = (Some e, st') \<Longrightarrow> run_items body (x # xs) st = (Some e, st')"
  by simp

text \<open>One pass of the PDF loop body.\<close>

lemma pdf_body_missing:
  "getsize w f = None \<Longrightarrow> pdf_body w qm n (i, f) (doc, ts, s) = (Some OSError, doc, ts, s)"
  by (simp add: pdf_body_def)

lemma pdf_body_present:
  assumes "getsize w f = Some sz"
  shows "\<exists>s'. pdf_body w qm n (i, f) (doc, ts, s) =
            (None, doc @ snd (pdf_try w (pdf_compression qm) f), ts + sz, s')
          \<and> progress_calls s' = progress_calls s @
               (if fst (pdf_try w (pdf_compression qm) f) then [SetItem i n] else [])
          \<and> count_list (log_text s') LogWarnProcess = count_list (log_text s) LogWarnProcess +
               (if fst (pdf_try w (pdf_compression qm) f) then 0 else 1)
          \<and> files_written s' = files_written s"
  using assms by (simp add: pdf_body_def Let_def)

lemma pdf_loop:
  assumes "fst (run_items (pdf_body w qm n) xs (doc, ts, s)) = None"
  shows "(\<forall>x\<in>set xs. getsize w (snd x) \<noteq> None)
       \<and> fst (snd (run_items (pdf_body w qm n) xs (doc, ts, s))) =
           doc @ concat (map (\<lambda>x. snd (pdf_try w (pdf_compression qm) (snd x))) xs)
       \<and> progress_calls (snd (snd (snd (run_items (pdf_body w qm n) xs (doc, ts, s))))) =
           progress_calls s @ map (\<lambda>x. SetItem (fst x) n)
             (filter (\<lambda>x. fst (pdf_try w (pdf_compression qm) (snd x))) xs)
       \<and> count_list (log_text (snd (snd (snd (run_items (pdf_body w qm n) xs (doc, ts, s))))))
           LogWarnProcess =
           count_list (log_text s) LogWarnProcess +
           length (filter (\<lambda>x. \<not> fst (pdf_try w (pdf_compression qm) (snd x))) xs)
       \<and> files_written (snd (snd (snd (run_items (pdf_body w qm n) xs (doc, ts, s))))) =
           files_written s"
  using assms
proof (induction xs arbitrary: doc ts s)
  case Nil
  show ?case by simp
next
  case (Cons x xs)
  obtain i f where x: "x = (i, f)" by (cases x)
  show ?case
  proof (cases "getsize w f")
    case None
    from pdf_body_missing [OF None, of qm n i doc ts s]
    have "fst (run_items (pdf_body w qm n) (x # xs) (doc, ts, s)) = Some OSError"
      by (simp add: x)
    with Cons.prems show ?thesis by simp
  next
    case (Some sz)
    from pdf_body_present [OF Some, of qm n i doc ts s]
    obtain s' where
      b: "pdf_body w qm n (i, f) (doc, ts, s) =
            (None, doc @ snd (pdf_try w (pdf_compression qm) f), ts + sz, s')"
      and p: "progress_calls s' = progress_calls s @
               (if fst (pdf_try w (pdf_compression qm) f) then [SetItem i n] else [])"
      and l: "count_list (log_text s') LogWarnProcess = count_list (log_text s) LogWarnProcess +
               (if fst (pdf_try w (pdf_compression qm) f) then 0 else 1)"
      and fw: "files_written s' = files_written s"
      by blast
    have r: "run_items (pdf_body w qm n) (x # xs) (doc, ts, s) =
          run_items (pdf_body w qm n) xs
            (doc @ snd (pdf_try w (pdf_compression qm) f), ts + sz, s')"
      unfolding x by (rule run_items_Cons_None [where body = "pdf_body w qm n", OF b])
    from Cons.prems have "fst (run_items (pdf_body w qm n) xs
            (doc @ snd (pdf_try w (pdf_compression qm) f), ts + sz, s')) = None"
      by (simp only: r)
    from Cons.IH [OF this] show ?thesis
      unfolding r by (simp add: x Some p l fw)
  qed
qed

lemma pdf_loop_returns:
  "\<forall>x\<in>set xs. getsize w (snd x) \<noteq> None \<Longrightarrow>
   fst (run_items (pdf_body w qm n) xs (doc, ts, s)) = None"
proof (induction xs arbitrary: doc ts s)
  case Nil
  show ?case by simp
next
  case (Cons x xs)
  obtain i f where x: "x = (i, f)" by (cases x)
  from Cons.prems obtain sz where sz: "getsize w f = Some sz" by (auto simp: x)
  from pdf_body_present [OF sz, of qm n i doc ts s]
  obtain s' where
    b: "pdf_body w qm n (i, f) (doc, ts, s) =
          (None, doc @ snd (pdf_try w (pdf_compression qm) f), ts + sz, s')"
    by blast
  have "run_items (pdf_body w qm n) (x # xs) (doc, ts, s) =
        run_items (pdf_body w qm n) xs
          (doc @ snd (pdf_try w (pdf_compression qm) f), ts + sz, s')"
    unfolding x by (rule run_items_Cons_None [where body = "pdf_body w qm n", OF b])
  with Cons show ?case by simp
qed

text \<open>One pass of the PPT loop body.\<close>

lemma ppt_body_returned:
  assumes "fst (ppt_body w layout n (i, f) (prs, s)) = None"
  shows "\<exists>s'. ppt_body w layout n (i, f) (prs, s) = (None, prs @ snd (ppt_try w layout f), s')
          \<and> progress_calls s' = progress_calls s @
               (if fst (ppt_try w layout f) then [SetItem i n] else [])
          \<and> count_list (log_text s') LogWarnSize = count_list (log_text s) LogWarnSize +
               (if image_open w f = None then 1 else 0)
          \<and> count_list (log_text s') LogWarnInsert = count_list (log_text s) LogWarnInsert +
               (if image_open w f \<noteq> None \<and> \<not> fst (ppt_try w layout f) then 1 else 0)
          \<and> files_written s' = files_written s"
  using assms
  by (auto simp: ppt_body_def ppt_try_def Let_def split: option.splits sum.splits)

lemma ppt_body_returns:
  assumes "getsize w f \<noteq> None"
    and "\<forall>img. image_open w f = Some img \<longrightarrow> \<not> isl (ppt_picture w layout f img)"
  shows "fst (ppt_body w layout n (i, f) (prs, s)) = None"
  using assms
  by (auto simp: ppt_body_def Let_def split: option.splits sum.splits)

lemma ppt_loop:
  assumes "fst (run_items (ppt_body w layout n) xs (prs, s)) = None"
  shows "fst (snd (run_items (ppt_body w layout n) xs (prs, s))) =
           prs @ concat (map (\<lambda>x. snd (ppt_try w layout (snd x))) xs)
       \<and> progress_calls (snd (snd (run_items (ppt_body w layout n) xs (prs, s)))) =
           progress_calls s @ map (\<lambda>x. SetItem (fst x) n)
             (filter (\<lambda>x. fst (ppt_try w layout (snd x))) xs)
       \<and> count_list (log_text (snd (snd (run_items (ppt_body w layout n) xs (prs, s)))))
           LogWarnSize =
           count_list (log_text s) LogWarnSize +
           length (filter (\<lambda>x. image_open w (snd x) = None) xs)
       \<and> count_list (log_text (snd (snd (run_items (ppt_body w layout n) xs (prs, s)))))
           LogWarnInsert =
           count_list (log_text s) LogWarnInsert +
           length (filter (\<lambda>x. image_open w (snd x) \<noteq> None \<and>
                              \<not> fst (ppt_try w layout (snd x))) xs)
       \<and> files_written (snd (snd (run_items (ppt_body w layout n) xs (prs, s)))) =
           files_written s"
  using assms
proof (induction xs arbitrary: prs s)
  case Nil
  show ?case by simp
next
  case (Cons x xs)
  obtain i f where x: "x = (i, f)" by (cases x)
  have first: "fst (ppt_body w layout n (i, f) (prs, s)) = None"
  proof (rule ccontr)
    assume "fst (ppt_body w layout n (i, f) (prs, s)) \<noteq> None"
    then obtain err st' where "ppt_body w layout n (i, f) (prs, s) = (Some err, st')"
      by (cases "ppt_body w layout n (i, f) (prs, s)") auto
    then have "run_items (ppt_body w layout n) (x # xs) (prs, s) = (Some err, st')"
      by (simp add: x)
    with Cons.prems show False by simp
  qed
  from ppt_body_returned [OF first]
  obtain s' where
    b: "ppt_body w layout n (i, f) (prs, s) = (None, prs @ snd (ppt_try w layout f), s')"
    and p: "progress_calls s' = progress_calls s @
             (if fst (ppt_try w layout f) then [SetItem i n] else [])"
    and l: "count_list (log_text s') LogWarnSize = count_list (log_text s) LogWarnSize +
             (if image_open w f = None then 1 else 0)"
    and l2: "count_list (log_text s') LogWarnInsert = count_list (log_text s) LogWarnInsert +
             (if image_open w f \<noteq> None \<and> \<not> fst (ppt_try w layout f) then 1 else 0)"
    and fw: "files_written s' = files_written s"
    by blast
  have r: "run_items (ppt_body w layout n) (x # xs) (prs, s) =
        run_items (ppt_body w layout n) xs (prs @ snd (ppt_try w layout f), s')"
    unfolding x by (rule run_items_Cons_None [where body = "ppt_body w layout n", OF b])
  from Cons.prems have "fst (run_items (ppt_body w layout n) xs
          (prs @ snd (ppt_try w layout f), s')) = None"
    by (simp only: r)
  from Cons.IH [OF this] show ?case
    unfolding r by (simp add: x p l l2 fw)
qed

lemma ppt_loop_returns:
  "\<forall>x\<in>set xs. getsize w (snd x) \<noteq> None \<and>
       (\<forall>img. image_open w (snd x) = Some img \<longrightarrow> \<not> isl (ppt_picture w layout (snd x) img)) \<Longrightarrow>
   fst (run_items (ppt_body w layout n) xs (prs, s)) = None"
proof (induction xs arbitrary: prs s)
  case Nil
  show ?case by simp
next
  case (Cons x xs)
  obtain i f where x: "x = (i, f)" by (cases x)
  from Cons.prems have "getsize w f \<noteq> None"
    and "\<forall>img. image_open w f = Some img \<longrightarrow> \<not> isl (ppt_picture w layout f img)"
    by (simp_all add: x)
  then have "fst (ppt_body w layout n (i, f) (prs, s)) = None"
    by (rule ppt_body_returns)
  from ppt_body_returned [OF this]
  obtain s' where
    b: "ppt_body w layout n (i, f) (prs, s) = (None, prs @ snd (ppt_try w layout f), s')"
    by blast
  have "run_items (ppt_body w layout n) (x # xs) (prs, s) =
        run_items (ppt_body w layout n) xs (prs @ snd (ppt_try w layout f), s')"
    unfolding x by (rule run_items_Cons_None [where body = "ppt_body w layout n", OF b])
  with Cons show ?case by simp
qed

text \<open>What the two exporters leave behind when they return normally.\<close>

lemma convert_to_pdf_returned:
  assumes "fst (convert_to_pdf w s out) = None"
  shows "files_written (snd (convert_to_pdf w s out)) = files_written s @
           [(out, PdfDoc (concat (map (\<lambda>f. snd (pdf_try w (pdf_compression (pdf_quality_var s)) f))
                                    (image_files s))))]"
    and "progress_calls (snd (convert_to_pdf w s out)) = progress_calls s @
           map (\<lambda>x. SetItem (fst x) (length (image_files s)))
             (filter (\<lambda>x. fst (pdf_try w (pdf_compression (pdf_quality_var s)) (snd x)))
                (enumerate 0 (image_files s)))"
    and "count_list (log_text (snd (convert_to_pdf w s out))) LogWarnProcess =
           count_list (log_text s) LogWarnProcess +
           length (filter (\<lambda>f. \<not> fst (pdf_try w (pdf_compression (pdf_quality_var s)) f))
                     (image_files s))"
proof -
  let ?qm = "pdf_quality_var s" and ?n = "length (image_files s)"
  let ?s0 = "add_log s (LogPdfStart ?qm)"
  let ?R = "run_items (pdf_body w ?qm ?n) (enumerate 0 (image_files s)) ([], 0, ?s0)"
  obtain e doc ts s1 where R: "?R = (e, doc, ts, s1)" by (cases ?R) auto
  from assms R have e: "e = None"
    by (auto simp: convert_to_pdf_def Let_def split: option.splits if_splits)
  then have "fst ?R = None" using R by simp
  from pdf_loop [OF this]
  have doc: "doc = concat (map (\<lambda>f. snd (pdf_try w (pdf_compression ?qm) f)) (image_files s))"
    and pc: "progress_calls s1 = progress_calls s @ map (\<lambda>x. SetItem (fst x) ?n)
             (filter (\<lambda>x. fst (pdf_try w (pdf_compression ?qm) (snd x)))
                (enumerate 0 (image_files s)))"
    and cl: "count_list (log_text s1) LogWarnProcess = count_list (log_text s) LogWarnProcess +
           length (filter (\<lambda>f. \<not> fst (pdf_try w (pdf_compression ?qm) f)) (image_files s))"
    and fw: "files_written s1 = files_written s"
    unfolding R
    by (simp_all add:
        concat_map_snd_enumerate [where g = "\<lambda>f. snd (pdf_try w (pdf_compression ?qm) f)"]
        length_filter_snd_enumerate [where P = "\<lambda>f. \<not> fst (pdf_try w (pdf_compression ?qm) f)"])
  from assms R e have ok: "save_ok w out (PdfDoc doc)"
    by (auto simp: convert_to_pdf_def Let_def split: if_splits)
  have res: "snd (convert_to_pdf w s out) =
      add_log (add_log (add_log (add_log
        ((add_log s1 LogSavingPdf)\<lparr>files_written :=
            files_written (add_log s1 LogSavingPdf) @ [(out, PdfDoc doc)]\<rparr>)
        LogPdfDone) (LogOriginalSize ts)) (LogPdfSize (saved_size w (PdfDoc doc))))
        (LogRatio (compression_ratio (saved_size w (PdfDoc doc)) ts))"
    using R e ok by (simp add: convert_to_pdf_def Let_def)
  show "files_written (snd (convert_to_pdf w s out)) = files_written s @
           [(out, PdfDoc (concat (map (\<lambda>f. snd (pdf_try w (pdf_compression ?qm) f))
                                    (image_files s))))]"
    unfolding res by (simp add: fw doc)
  show "progress_calls (snd (convert_to_pdf w s out)) = progress_calls s @
           map (\<lambda>x. SetItem (fst x) ?n)
             (filter (\<lambda>x. fst (pdf_try w (pdf_compression ?qm) (snd x)))
                (enumerate 0 (image_files s)))"
    unfolding res by (simp add: pc)
  show "count_list (log_text (snd (convert_to_pdf w s out))) LogWarnProcess =
           count_list (log_text s) LogWarnProcess +
           length (filter (\<lambda>f. \<not> fst (pdf_try w (pdf_compression ?qm) f)) (image_files s))"
    unfolding res by (simp add: cl)
qed

lemma convert_to_pdf_returns:
  assumes "\<forall>f\<in>set (image_files s). getsize w f \<noteq> None"
    and "save_ok w out
           (PdfDoc (concat (map (\<lambda>f. snd (pdf_try w (pdf_compression (pdf_quality_var s)) f))
                              (image_files s))))"
  shows "fst (convert_to_pdf w s out) = None"
proof -
  let ?qm = "pdf_quality_var s" and ?n = "length (image_files s)"
  let ?s0 = "add_log s (LogPdfStart ?qm)"
  let ?R = "run_items (pdf_body w ?qm ?n) (enumerate 0 (image_files s)) ([], 0, ?s0)"
  have "\<forall>x\<in>set (enumerate 0 (image_files s)). getsize w (snd x) \<noteq> None"
    using assms(1) by (auto simp: in_set_enumerate_eq)
  then have none: "fst ?R = None" by (rule pdf_loop_returns)
  obtain e doc ts s1 where R: "?R = (e, doc, ts, s1)" by (cases ?R) auto
  with none have e: "e = None" by simp
  from pdf_loop [OF none]
  have doc: "doc = concat (map (\<lambda>f. snd (pdf_try w (pdf_compression ?qm) f)) (image_files s))"
    unfolding R
    by (simp add:
        concat_map_snd_enumerate [where g = "\<lambda>f. snd (pdf_try w (pdf_compression ?qm) f)"])
  show ?thesis using R e assms(2) by (simp add: convert_to_pdf_def Let_def doc)
qed

lemma convert_to_ppt_returned:
  assumes "fst (convert_to_ppt w s out) = None"
  shows "files_written (snd (convert_to_ppt w s out)) = files_written s @
           [(out, PptDoc (concat (map (\<lambda>f. snd (ppt_try w (ppt_layout_var s) f))
                                    (image_files s))))]"
    and "progress_calls (snd (convert_to_ppt w s out)) = progress_calls s @
           map (\<lambda>x. SetItem (fst x) (length (image_files s)))
             (filter (\<lambda>x. fst (ppt_try w (ppt_layout_var s) (snd x)))
                (enumerate 0 (image_files s)))"
    and "count_list (log_text (snd (convert_to_ppt w s out))) LogWarnSize =
           count_list (log_text s) LogWarnSize +
           length (filter (\<lambda>f. image_open w f = None) (image_files s))"
    and "count_list (log_text (snd (convert_to_ppt w s out))) LogWarnInsert =
           count_list (log_text s) LogWarnInsert +
           length (filter (\<lambda>f. image_open w f \<noteq> None \<and> \<not> fst (ppt_try w (ppt_layout_var s) f))
                     (image_files s))"
proof -
  let ?l = "ppt_layout_var s" and ?n = "length (image_files s)"
  let ?s0 = "add_log s LogPptStart"
  let ?R = "run_items (ppt_body w ?l ?n) (enumerate 0 (image_files s)) ([], ?s0)"
  obtain e prs s1 where R: "?R = (e, prs, s1)" by (cases ?R) auto
  from assms R have e: "e = None"
    by (auto simp: convert_to_ppt_def Let_def split: option.splits if_splits)
  then have "fst ?R = None" using R by simp
  from ppt_loop [OF this]
  have prs: "prs = concat (map (\<lambda>f. snd (ppt_try w ?l f)) (image_files s))"
    and pc: "progress_calls s1 = progress_calls s @ map (\<lambda>x. SetItem (fst x) ?n)
             (filter (\<lambda>x. fst (ppt_try w ?l (snd x))) (enumerate 0 (image_files s)))"
    and cl: "count_list (log_text s1) LogWarnSize = count_list (log_text s) LogWarnSize +
           length (filter (\<lambda>f. image_open w f = None) (image_files s))"
    and cl2: "count_list (log_text s1) LogWarnInsert = count_list (log_text s) LogWarnInsert +
           length (filter (\<lambda>f. image_open w f \<noteq> None \<and> \<not> fst (ppt_try w ?l f))
                     (image_files s))"
    and fw: "files_written s1 = files_written s"
    unfolding R
    by (simp_all add:
        concat_map_snd_enumerate [where g = "\<lambda>f. snd (ppt_try w ?l f)"]
        length_filter_snd_enumerate [where P = "\<lambda>f. image_open w f = None"]
        length_filter_snd_enumerate
          [where P = "\<lambda>f. (\<exists>y. image_open w f = Some y) \<and> \<not> fst (ppt_try w ?l f)"])
  from assms R e have ok: "save_ok w out (PptDoc prs)"
    by (auto simp: convert_to_ppt_def Let_def split: if_splits)
  have res: "snd (convert_to_ppt w s out) =
      add_log (add_log (add_log
        ((add_log s1 LogSavingPpt)\<lparr>files_written :=
            files_written (add_log s1 LogSavingPpt) @ [(out, PptDoc prs)]\<rparr>)
        LogPptDone) (LogSlideCount ?n)) (LogPptSize (saved_size w (PptDoc prs)))"
    using R e ok by (simp add: convert_to_ppt_def Let_def)
  show "files_written (snd (convert_to_ppt w s out)) = files_written s @
           [(out, PptDoc (concat (map (\<lambda>f. snd (ppt_try w ?l f)) (image_files s))))]"
    unfolding res by (simp add: fw prs)
  show "progress_calls (snd (convert_to_ppt w s out)) = progress_calls s @
           map (\<lambda>x. SetItem (fst x) ?n)
             (filter (\<lambda>x. fst (ppt_try w ?l (snd x))) (enumerate 0 (image_files s)))"
    unfolding res by (simp add: pc)
  show "count_list (log_text (snd (convert_to_ppt w s out))) LogWarnSize =
           count_list (log_text s) LogWarnSize +
           length (filter (\<lambda>f. image_open w f = None) (image_files s))"
    unfolding res by (simp add: cl)
  show "count_list (log_text (snd (convert_to_ppt w s out))) LogWarnInsert =
           count_list (log_text s) LogWarnInsert +
           length (filter (\<lambda>f. image_open w f \<noteq> None \<and> \<not> fst (ppt_try w ?l f))
                     (image_files s))"
    unfolding res by (simp add: cl2)
qed

lemma convert_to_ppt_returns:
  assumes "\<forall>f\<in>set (image_files s). getsize w f \<noteq> None \<and>
             (\<forall>img. image_open w f = Some img \<longrightarrow>
                \<not> isl (ppt_picture w (ppt_layout_var s) f img))"
    and "save_ok w out
           (PptDoc (concat (map (\<lambda>f. snd (ppt_try w (ppt_layout_var s) f)) (image_files s))))"
  shows "fst (convert_to_ppt w s out) = None"
proof -
  let ?l = "ppt_layout_var s" and ?n = "length (image_files s)"
  let ?s0 = "add_log s LogPptStart"
  let ?R = "run_items (ppt_body w ?l ?n) (enumerate 0 (image_files s)) ([], ?s0)"
  have "\<forall>x\<in>set (enumerate 0 (image_files s)). getsize w (snd x) \<noteq> None \<and>
       (\<forall>img. image_open w (snd x) = Some img \<longrightarrow> \<not> isl (ppt_picture w ?l (snd x) img))"
    using assms(1) by (auto simp: in_set_enumerate_eq)
  then have none: "fst ?R = None" by (rule ppt_loop_returns)
  obtain e prs s1 where R: "?R = (e, prs, s1)" by (cases ?R) auto
  with none have e: "e = None" by simp
  from ppt_loop [OF none]
  have prs: "prs = concat (map (\<lambda>f. snd (ppt_try w ?l f)) (image_files s))"
    unfolding R
    by (simp add: concat_map_snd_enumerate [where g = "\<lambda>f. snd (ppt_try w ?l f)"])
  show ?thesis using R e assms(2) by (simp add: convert_to_ppt_def Let_def prs)
qed

lemma progress_events_sorted:
  "sorted_wrt (<) (map event_index
     (map (\<lambda>x. SetItem (fst x) n) (filter Q (enumerate k fs))))"
proof -
  have "sorted_wrt (\<lambda>x y. fst x < fst y) (enumerate k fs)"
    using sorted_wrt_map [of "(<)" fst "enumerate k fs"] by (simp add: map_fst_enumerate)
  then have "sorted_wrt (\<lambda>x y. fst x < fst y) (filter Q (enumerate k fs))"
    by (rule sorted_wrt_filter)
  then show ?thesis by (simp add: sorted_wrt_map comp_def)
qed

lemma progress_events_all:
  "\<forall>f\<in>set fs. P f \<Longrightarrow>
   map (\<lambda>x. SetItem (fst x) n) (filter (\<lambda>x. P (snd x)) (enumerate k fs)) =
   map (\<lambda>i. SetItem i n) [k..<k + length fs]"
proof (induction fs arbitrary: k)
  case Nil
  show ?case by simp
next
  case (Cons f fs)
  then have "map (\<lambda>x. SetItem (fst x) n) (filter (\<lambda>x. P (snd x)) (enumerate (Suc k) fs)) =
     map (\<lambda>i. SetItem i n) [Suc k..<Suc k + length fs]" by simp
  with Cons.prems show ?case by (simp add: upt_conv_Cons del: upt_Suc)
qed

text \<open>
  C3, as the code has it. When an exporter returns normally, the progress calls it has
  scheduled are, in order, one for every entry whose picture was embedded (PDF) or
  inserted (PPT), each with that entry's index and the number of entries, and none for
  an entry that was skipped: the \<^verbatim>\<open>continue\<close> of the \<^verbatim>\<open>except\<close> branches passes over the
  update. The indices are strictly increasing, the number of calls is the number of
  entries processed to the end, and when no entry is skipped they are the calls for
  \<open>0\<close> to \<open>n - 1\<close>.
\<close>

theorem progress_only_for_processed:
  "(fst (convert_to_pdf w s out) = None \<longrightarrow>
      progress_calls (snd (convert_to_pdf w s out)) = progress_calls s @
        map (\<lambda>x. SetItem (fst x) (length (image_files s)))
          (filter (\<lambda>x. fst (pdf_try w (pdf_compression (pdf_quality_var s)) (snd x)))
             (enumerate 0 (image_files s)))
    \<and> sorted_wrt (<) (map event_index
        (drop (length (progress_calls s)) (progress_calls (snd (convert_to_pdf w s out)))))
    \<and> length (progress_calls (snd (convert_to_pdf w s out))) = length (progress_calls s) +
        length (filter (\<lambda>f. fst (pdf_try w (pdf_compression (pdf_quality_var s)) f))
                  (image_files s))
    \<and> ((\<forall>f\<in>set (image_files s). fst (pdf_try w (pdf_compression (pdf_quality_var s)) f)) \<longrightarrow>
         progress_calls (snd (convert_to_pdf w s out)) = progress_calls s @
           map (\<lambda>i. SetItem i (length (image_files s))) [0..<length (image_files s)]))
   \<and>
   (fst (convert_to_ppt w s out) = None \<longrightarrow>
      progress_calls (snd (convert_to_ppt w s out)) = progress_calls s @
        map (\<lambda>x. SetItem (fst x) (length (image_files s)))
          (filter (\<lambda>x. fst (ppt_try w (ppt_layout_var s) (snd x)))
             (enumerate 0 (image_files s)))
    \<and> sorted_wrt (<) (map event_index
        (drop (length (progress_calls s)) (progress_calls (snd (convert_to_ppt w s out)))))
    \<and> length (progress_calls (snd (convert_to_ppt w s out))) = length (progress_calls s) +
        length (filter (\<lambda>f. fst (ppt_try w (ppt_layout_var s) f)) (image_files s))
    \<and> ((\<forall>f\<in>set (image_files s). fst (ppt_try w (ppt_layout_var s) f)) \<longrightarrow>
         progress_calls (snd (convert_to_ppt w s out)) = progress_calls s @
           map (\<lambda>i. SetItem i (length (image_files s))) [0..<length (image_files s)]))"
proof (intro conjI impI)
  let ?c = "pdf_compression (pdf_quality_var s)" and ?n = "length (image_files s)"
  assume ok: "fst (convert_to_pdf w s out) = None"
  note pc = convert_to_pdf_returned(2) [OF ok]
  show "progress_calls (snd (convert_to_pdf w s out)) = progress_calls s @
        map (\<lambda>x. SetItem (fst x) ?n)
          (filter (\<lambda>x. fst (pdf_try w ?c (snd x))) (enumerate 0 (image_files s)))"
    by (rule pc)
  show "sorted_wrt (<) (map event_index
        (drop (length (progress_calls s)) (progress_calls (snd (convert_to_pdf w s out)))))"
    unfolding pc
    using progress_events_sorted
      [of "length (image_files s)" "\<lambda>x. fst (pdf_try w ?c (snd x))" 0 "image_files s"]
    by simp
  show "length (progress_calls (snd (convert_to_pdf w s out))) = length (progress_calls s) +
        length (filter (\<lambda>f. fst (pdf_try w ?c f)) (image_files s))"
    unfolding pc
    by (simp add: length_filter_snd_enumerate [where P = "\<lambda>f. fst (pdf_try w ?c f)"])
  assume "\<forall>f\<in>set (image_files s). fst (pdf_try w ?c f)"
  from progress_events_all [where P = "\<lambda>f. fst (pdf_try w ?c f)", OF this, of ?n 0]
  show "progress_calls (snd (convert_to_pdf w s out)) = progress_calls s @
           map (\<lambda>i. SetItem i ?n) [0..<?n]"
    unfolding pc by simp
next
  let ?l = "ppt_layout_var s" and ?n = "length (image_files s)"
  assume ok: "fst (convert_to_ppt w s out) = None"
  note pc = convert_to_ppt_returned(2) [OF ok]
  show "progress_calls (snd (convert_to_ppt w s out)) = progress_calls s @
        map (\<lambda>x. SetItem (fst x) ?n)
          (filter (\<lambda>x. fst (ppt_try w ?l (snd x))) (enumerate 0 (image_files s)))"
    by (rule pc)
  show "sorted_wrt (<) (map event_index
        (drop (length (progress_calls s)) (progress_calls (snd (convert_to_ppt w s out)))))"
    unfolding pc
    using progress_events_sorted
      [of "length (image_files s)" "\<lambda>x. fst (ppt_try w ?l (snd x))" 0 "image_files s"]
    by simp
  show "length (progress_calls (snd (convert_to_ppt w s out))) = length (progress_calls s) +
        length (filter (\<lambda>f. fst (ppt_try w ?l f)) (image_files s))"
    unfolding pc
    by (simp add: length_filter_snd_enumerate [where P = "\<lambda>f. fst (ppt_try w ?l f)"])
  assume "\<forall>f\<in>set (image_files s). fst (ppt_try w ?l f)"
  from progress_events_all [where P = "\<lambda>f. fst (ppt_try w ?l f)", OF this, of ?n 0]
  show "progress_calls (snd (convert_to_ppt w s out)) = progress_calls s @
           map (\<lambda>i. SetItem i ?n) [0..<?n]"
    unfolding pc by simp
qed

text \<open>
  The theorem on three entries of which the second cannot be opened: both exporters
  return normally and schedule the calls for entries 0 and 2 only.
\<close>

theorem progress_only_for_processed_witness:
  "fst (convert_to_pdf (broken_world ''pics/b.png'')
          (pdf_app [''pics/a.png'', ''pics/b.png'', ''pics/c.png'']) ''pics/out.pdf'') = None \<and>
   progress_calls (snd (convert_to_pdf (broken_world ''pics/b.png'')
          (pdf_app [''pics/a.png'', ''pics/b.png'', ''pics/c.png'']) ''pics/out.pdf'')) =
     [SetItem 0 3, SetItem 2 3] \<and>
   fst (convert_to_ppt (broken_world ''pics/b.png'')
          (ppt_app [''pics/a.png'', ''pics/b.png'', ''pics/c.png'']) ''pics/out.pptx'') = None \<and>
   progress_calls (snd (convert_to_ppt (broken_world ''pics/b.png'')
          (ppt_app [''pics/a.png'', ''pics/b.png'', ''pics/c.png'']) ''pics/out.pptx'')) =
     [SetItem 0 3, SetItem 2 3]"
proof -
  let ?w = "broken_world ''pics/b.png''"
  let ?s = "pdf_app [''pics/a.png'', ''pics/b.png'', ''pics/c.png'']"
  let ?t = "ppt_app [''pics/a.png'', ''pics/b.png'', ''pics/c.png'']"
  have gs: "\<forall>f\<in>set (image_files ?s). getsize ?w f \<noteq> None"
    by (simp add: broken_world_def example_world_def)
  have sv: "save_ok ?w ''pics/out.pdf'' d" for d
    by (simp add: broken_world_def example_world_def)
  have pdf_ok: "fst (convert_to_pdf ?w ?s ''pics/out.pdf'') = None"
    using gs sv by (rule convert_to_pdf_returns)
  have gt: "\<forall>f\<in>set (image_files ?t). getsize ?w f \<noteq> None \<and>
             (\<forall>img. image_open ?w f = Some img \<longrightarrow>
                \<not> isl (ppt_picture ?w (ppt_layout_var ?t) f img))"
    by (simp add: broken_world_def example_world_def ppt_app_def example_app_def
        ppt_picture_def ppt_placement_def)
  have sv': "save_ok ?w ''pics/out.pptx'' d" for d
    by (simp add: broken_world_def example_world_def)
  have ppt_ok: "fst (convert_to_ppt ?w ?t ''pics/out.pptx'') = None"
    using gt sv' by (rule convert_to_ppt_returns)
  note inst = progress_only_for_processed [of ?w ?s "''pics/out.pdf''"]
    and inst' = progress_only_for_processed [of ?w ?t "''pics/out.pptx''"]
  have "progress_calls (snd (convert_to_pdf ?w ?s ''pics/out.pdf'')) = progress_calls ?s @
        map (\<lambda>x. SetItem (fst x) (length (image_files ?s)))
          (filter (\<lambda>x. fst (pdf_try ?w (pdf_compression (pdf_quality_var ?s)) (snd x)))
             (enumerate 0 (image_files ?s)))"
    using inst [THEN conjunct1] pdf_ok by (simp only: simp_thms)
  also have "\<dots> = [SetItem 0 3, SetItem 2 3]"
    by (simp add: pdf_app_def example_app_def broken_world_def example_world_def pdf_try_def jpeg_modes_def flat_image_def normalize_mode_def
        pdf_compression_def Let_def)
  finally have p1: "progress_calls (snd (convert_to_pdf ?w ?s ''pics/out.pdf'')) =
     [SetItem 0 3, SetItem 2 3]" .
  have "progress_calls (snd (convert_to_ppt ?w ?t ''pics/out.pptx'')) = progress_calls ?t @
        map (\<lambda>x. SetItem (fst x) (length (image_files ?t)))
          (filter (\<lambda>x. fst (ppt_try ?w (ppt_layout_var ?t) (snd x)))
             (enumerate 0 (image_files ?t)))"
    using inst' [THEN conjunct2] ppt_ok by (simp only: simp_thms)
  also have "\<dots> = [SetItem 0 3, SetItem 2 3]"
    by (simp add: ppt_app_def example_app_def broken_world_def example_world_def flat_image_def ppt_try_def
        ppt_picture_def ppt_placement_def)
  finally have p2: "progress_calls (snd (convert_to_ppt ?w ?t ''pics/out.pptx'')) =
     [SetItem 0 3, SetItem 2 3]" .
  show ?thesis by (intro conjI pdf_ok p1 ppt_ok p2)
qed

text \<open>
  C3 as stated fails: with two entries of which the second cannot be opened, the PDF
  exporter returns normally having scheduled one call, not two, and the last call it
  scheduled is the one for index 0, not for index 1.
\<close>

theorem progress_skipped_counterexample:
  "image_files (pdf_app [''pics/a.png'', ''pics/b.png'']) = [''pics/a.png'', ''pics/b.png''] \<and>
   fst (convert_to_pdf (broken_world ''pics/b.png'')
          (pdf_app [''pics/a.png'', ''pics/b.png'']) ''pics/out.pdf'') = None \<and>
   progress_calls (snd (convert_to_pdf (broken_world ''pics/b.png'')
          (pdf_app [''pics/a.png'', ''pics/b.png'']) ''pics/out.pdf'')) = [SetItem 0 2]"
  by (simp add: convert_to_pdf_def pdf_body_def pdf_try_def jpeg_modes_def flat_image_def normalize_mode_def pdf_compression_def new_page_def broken_world_def example_world_def pdf_app_def
      example_app_def add_log_def Let_def)

subsection \<open>Skipped entries\<close>





lemma pdf_try_opened: "fst (pdf_try w c f) \<Longrightarrow> image_open w f \<noteq> None"
  by (cases "image_open w f") (simp_all add: pdf_try_def)

lemma ppt_try_opened: "fst (ppt_try w layout f) \<Longrightarrow> image_open w f \<noteq> None"
  by (cases "image_open w f") (simp_all add: ppt_try_def)





subsection \<open>Recompression\<close>














end
